theory Spec2Isabelle
  imports Complex_Main
begin

unbundle bit_operations_syntax

section \<open>Protocol codec (ufo\_protocol.py)\<close>

text \<open>
  Python integers are unbounded, so they are modelled as \<open>int\<close>. An exception is a value:
  a function that may raise returns \<open>error + 'a\<close>, with \<open>Inl\<close> for the exception.
  \<open>ValueError\<close> carries the offending value (the source puts it in the message).
\<close>

datatype error =
    ValueError int
  | KeyError string
  | TypeError
  | ZeroDivisionError
  | OverflowError
  | SystemExit string

text \<open>Sequencing of two computations that may raise: the first exception wins.\<close>

definition bind_e :: "error + 'a \<Rightarrow> ('a \<Rightarrow> error + 'b) \<Rightarrow> error + 'b" where
  "bind_e m f = (case m of Inl e \<Rightarrow> Inl e | Inr x \<Rightarrow> f x)"

text \<open>\<open>KEEPALIVE_0101 = bytes([0x01, 0x01])\<close>\<close>

definition KEEPALIVE_0101 :: "int list" where
  "KEEPALIVE_0101 = [1, 1]"

text \<open>\<open>u8\<close>, ufo\_protocol.py lines 7-10.\<close>

definition u8 :: "int \<Rightarrow> error + int" where
  "u8 x = (if \<not> (0 \<le> x \<and> x \<le> 255) then Inl (ValueError x) else Inr x)"

text \<open>\<open>clamp_u8\<close>, ufo\_protocol.py lines 13-14.\<close>

definition clamp_u8 :: "int \<Rightarrow> int" where
  "clamp_u8 x = (if x < 0 then 0 else (if x > 255 then 255 else x))"

text \<open>\<open>axis_to_extreme\<close>, ufo\_protocol.py lines 17-29.\<close>

definition axis_to_extreme :: "bool \<Rightarrow> bool \<Rightarrow> int \<Rightarrow> error + int" where
  "axis_to_extreme pos_on neg_on center =
     bind_e (u8 center) (\<lambda>center.
       if pos_on \<and> \<not> neg_on then Inr 255
       else if neg_on \<and> \<not> pos_on then Inr 0
       else Inr center)"

text \<open>
  Python's \<open>bytes(list)\<close> constructor: it raises \<open>ValueError\<close> when an element is not in
  \<open>range(0, 256)\<close>, and otherwise yields the elements as bytes. A byte string is modelled
  as the list of its byte values.
\<close>

fun bytes :: "int list \<Rightarrow> error + int list" where
  "bytes [] = Inr []"
| "bytes (x # xs) =
     (if 0 \<le> x \<and> x < 256 then bind_e (bytes xs) (\<lambda>ys. Inr (x # ys))
      else Inl (ValueError x))"

text \<open>\<open>build_analog_with_flags\<close>, ufo\_protocol.py lines 32-46.\<close>

definition build_analog_with_flags :: "int \<Rightarrow> int \<Rightarrow> int \<Rightarrow> int \<Rightarrow> int \<Rightarrow> error + int list" where
  "build_analog_with_flags c1 c2 thr c4 flags =
     bind_e (u8 c1) (\<lambda>c1.
     bind_e (u8 c2) (\<lambda>c2.
     bind_e (u8 thr) (\<lambda>thr.
     bind_e (u8 c4) (\<lambda>c4.
     bind_e (u8 flags) (\<lambda>flags.
       let chk = (c1 XOR c2 XOR thr XOR c4 XOR flags) AND 255
       in bytes [3, 102, c1, c2, thr, c4, flags, chk, 153])))))"

section \<open>Legacy single-file script (send\_ufo\_keyboard.py)\<close>

text \<open>\<open>_u8\<close>, send\_ufo\_keyboard.py lines 36-39.\<close>

definition kb_u8 :: "int \<Rightarrow> error + int" where
  "kb_u8 x = (if \<not> (0 \<le> x \<and> x \<le> 255) then Inl (ValueError x) else Inr x)"

text \<open>\<open>build_analog_with_flags\<close>, send\_ufo\_keyboard.py lines 62-76.\<close>

definition kb_build_analog_with_flags :: "int \<Rightarrow> int \<Rightarrow> int \<Rightarrow> int \<Rightarrow> int \<Rightarrow> error + int list" where
  "kb_build_analog_with_flags c1 c2 thr c4 flags =
     bind_e (kb_u8 c1) (\<lambda>c1.
     bind_e (kb_u8 c2) (\<lambda>c2.
     bind_e (kb_u8 thr) (\<lambda>thr.
     bind_e (kb_u8 c4) (\<lambda>c4.
     bind_e (kb_u8 flags) (\<lambda>flags.
       let chk = (c1 XOR c2 XOR thr XOR c4 XOR flags) AND 255
       in bytes [3, 102, c1, c2, thr, c4, flags, chk, 153])))))"

text \<open>
  \<open>_axis_to_extreme\<close>, send\_ufo\_keyboard.py lines 138-149. Unlike the shared module's
  function it does not validate \<open>center\<close>, so it cannot raise.
\<close>

definition kb_axis_to_extreme :: "bool \<Rightarrow> bool \<Rightarrow> int \<Rightarrow> int" where
  "kb_axis_to_extreme pos_on neg_on center =
     (if pos_on \<and> \<not> neg_on then 255
      else if neg_on \<and> \<not> pos_on then 0
      else center)"

section \<open>Configuration (ufo\_config.py)\<close>

text \<open>
  The fields of \<open>Args\<close> that the control loop reads. The addresses, the \<open>quiet\<close> flag and
  the three unused deltas do not influence a transmitted byte and are left out.
  A Python float is modelled by the real number it denotes. The hold-window test
  (\<open>hold_s\<close> and \<open>is_on\<close>, below) is computed as the interpreter computes it, in IEEE 754
  binary64 with rounding to nearest, ties to even. The scheduler's own arithmetic (the
  periods, the two deadlines and the sleep lengths) is left exact.
\<close>

record Args =
  rate_hz :: real
  send_keepalive :: bool
  keepalive_hz :: real
  hold_ms :: int
  c1_center :: int
  c2_center :: int
  c4_center :: int
  thr_base :: int

text \<open>The defaults of \<open>parse_args\<close>, ufo\_config.py lines 47-67.\<close>

definition default_args :: Args where
  "default_args = \<lparr> rate_hz = 20, send_keepalive = False, keepalive_hz = 1, hold_ms = 180,
     c1_center = 128, c2_center = 128, c4_center = 128, thr_base = 0 \<rparr>"

text \<open>The checks of \<open>parse_args\<close>, ufo\_config.py lines 70-78.\<close>

definition validate_args :: "Args \<Rightarrow> error + Args" where
  "validate_args a =
     (if rate_hz a \<le> 0 then Inl (SystemExit ''--rate-hz must be > 0'')
      else if keepalive_hz a \<le> 0 then Inl (SystemExit ''--keepalive-hz must be > 0'')
      else if hold_ms a \<le> 0 then Inl (SystemExit ''--hold-ms must be > 0'')
      else bind_e (u8 (c1_center a)) (\<lambda>_.
           bind_e (u8 (c2_center a)) (\<lambda>_.
           bind_e (u8 (c4_center a)) (\<lambda>_.
           bind_e (u8 (thr_base a)) (\<lambda>_. Inr a)))))"

section \<open>Double-precision arithmetic\<close>

text \<open>
  IEEE 754 binary64, as far as the hold-window test needs it: the rounding of an exact
  result to the nearest double, ties to even, with gradual underflow and overflow to
  infinity. All definitions compute on rational inputs.
\<close>

text \<open>The number of binary digits of a natural number.\<close>

fun bit_len :: "nat \<Rightarrow> nat" where
  "bit_len n = (if n = 0 then 0 else Suc (bit_len (n div 2)))"

declare bit_len.simps [simp del]

text \<open>Two to an integer power.\<close>

definition pow2 :: "int \<Rightarrow> real" where
  "pow2 k = (if 0 \<le> k then 2 ^ nat k else 1 / 2 ^ nat (- k))"

text \<open>The binary exponent \<open>e\<close> of a non-zero real: \<open>2^e \<le> |x| < 2^(e+1)\<close>.\<close>

definition binade :: "real \<Rightarrow> int" where
  "binade x =
     (if 1 \<le> \<bar>x\<bar> then int (bit_len (nat \<lfloor>\<bar>x\<bar>\<rfloor>)) - 1
      else - int (bit_len (nat (\<lceil>1 / \<bar>x\<bar>\<rceil> - 1))))"

text \<open>Rounding to the nearest integer, a tie going to the even neighbour.\<close>

definition round_half_even :: "real \<Rightarrow> int" where
  "round_half_even x =
     (let f = \<lfloor>x\<rfloor>; d = x - of_int f
      in if d < 1 / 2 then f
         else if d > 1 / 2 then f + 1
         else if even f then f else f + 1)"

text \<open>
  Rounding to 53 significant bits; below \<open>2^-1022\<close> the spacing stays \<open>2^-1074\<close>
  (subnormal numbers). The exponent is not bounded above here.
\<close>

definition round64 :: "real \<Rightarrow> real" where
  "round64 x =
     (if x = 0 then 0
      else let e = max (binade x) (- 1022); q = pow2 (e - 52)
           in of_int (round_half_even (x / q)) * q)"

text \<open>The result of a float operation: a finite double or an infinity.\<close>

datatype py_float = Finite real | PosInf | NegInf

text \<open>The double an exact result becomes: it overflows when it rounds to \<open>2^1024\<close> or beyond.\<close>

definition fl64 :: "real \<Rightarrow> py_float" where
  "fl64 x =
     (let y = round64 x
      in if \<bar>y\<bar> \<ge> 2 ^ 1024 then (if x > 0 then PosInf else NegInf) else Finite y)"

text \<open>Float subtraction \<open>a - b\<close> of two finite doubles.\<close>

definition float_sub :: "real \<Rightarrow> real \<Rightarrow> py_float" where
  "float_sub a b = fl64 (a - b)"

text \<open>The comparison \<open>x <= h\<close> of a float result with a finite double.\<close>

fun float_le :: "py_float \<Rightarrow> real \<Rightarrow> bool" where
  "float_le (Finite x) h = (x \<le> h)"
| "float_le PosInf h = False"
| "float_le NegInf h = True"

text \<open>
  The conversion of a Python integer to a float, as in \<open>int / float\<close>: correctly rounded,
  and \<open>OverflowError\<close> when the integer is too large for a double.
\<close>

definition float_of_int :: "int \<Rightarrow> error + real" where
  "float_of_int n =
     (case fl64 (of_int n) of
        Finite x \<Rightarrow> Inr x
      | PosInf \<Rightarrow> Inl OverflowError
      | NegInf \<Rightarrow> Inl OverflowError)"

section \<open>Key state and analog frame (ufo\_controller.py, \<open>run\<close>)\<close>

text \<open>
  The dictionary \<open>t_last\<close> maps an input name to the time of its last key event.
  Lines 65-74 create it with the eight names at the sentinel \<open>-1e9\<close>.
\<close>

type_synonym key_times = "string \<rightharpoonup> real"

definition input_names :: "string list" where
  "input_names = [''w'', ''a'', ''s'', ''d'', ''up'', ''down'', ''left'', ''right'']"

definition t_last_init :: key_times where
  "t_last_init = [''w'' \<mapsto> - 1000000000, ''a'' \<mapsto> - 1000000000, ''s'' \<mapsto> - 1000000000,
     ''d'' \<mapsto> - 1000000000, ''up'' \<mapsto> - 1000000000, ''down'' \<mapsto> - 1000000000,
     ''left'' \<mapsto> - 1000000000, ''right'' \<mapsto> - 1000000000]"

text \<open>
  \<open>hold_s = args.hold_ms / 1000.0\<close>, line 49: the integer is converted to a float and
  the quotient is rounded. A finite double divided by 1000 cannot overflow.
\<close>

definition hold_s_of :: "Args \<Rightarrow> error + real" where
  "hold_s_of args = bind_e (float_of_int (hold_ms args)) (\<lambda>h. Inr (round64 (h / 1000)))"

text \<open>
  \<open>is_on\<close>, lines 76-77: a closure over \<open>t_last\<close> and \<open>hold_s\<close>, here two parameters.
  Looking up a name that is not in the dictionary raises \<open>KeyError\<close>. The difference
  \<open>now - t_last[name]\<close> is a float subtraction, rounded before it is compared.
\<close>

definition is_on :: "key_times \<Rightarrow> real \<Rightarrow> string \<Rightarrow> real \<Rightarrow> error + bool" where
  "is_on t_last hold_s name now =
     (case t_last name of
        None \<Rightarrow> Inl (KeyError name)
      | Some t \<Rightarrow> Inr (float_le (float_sub now t) hold_s))"

text \<open>The \<open>"r"\<close> action, lines 101-104: every key of the dictionary goes back to the sentinel.\<close>

definition reset_all :: "key_times \<Rightarrow> key_times" where
  "reset_all t_last = (\<lambda>key. case t_last key of None \<Rightarrow> None | Some _ \<Rightarrow> Some (- 1000000000))"

text \<open>\<open>t_last[k] = now\<close>, line 105.\<close>

definition record_key :: "key_times \<Rightarrow> string \<Rightarrow> real \<Rightarrow> key_times" where
  "record_key t_last k now = t_last(k \<mapsto> now)"

text \<open>
  The frame of one analog tick, lines 108-132: the eight held states, the three axes,
  the throttle with its override, the clamps and the encoder, in the source's order.
\<close>

definition analog_packet :: "Args \<Rightarrow> real \<Rightarrow> key_times \<Rightarrow> real \<Rightarrow> error + int list" where
  "analog_packet args hold_s t_last now =
     bind_e (is_on t_last hold_s ''w'' now) (\<lambda>w_on.
     bind_e (is_on t_last hold_s ''s'' now) (\<lambda>s_on.
     bind_e (is_on t_last hold_s ''a'' now) (\<lambda>a_on.
     bind_e (is_on t_last hold_s ''d'' now) (\<lambda>d_on.
     bind_e (is_on t_last hold_s ''up'' now) (\<lambda>up_on.
     bind_e (is_on t_last hold_s ''down'' now) (\<lambda>down_on.
     bind_e (is_on t_last hold_s ''left'' now) (\<lambda>left_on.
     bind_e (is_on t_last hold_s ''right'' now) (\<lambda>right_on.
     bind_e (axis_to_extreme w_on s_on (c1_center args)) (\<lambda>c1.
     bind_e (axis_to_extreme d_on a_on (c2_center args)) (\<lambda>c2.
     bind_e (axis_to_extreme right_on left_on (c4_center args)) (\<lambda>c4.
     bind_e (if w_on then Inr 255 else axis_to_extreme up_on down_on (thr_base args)) (\<lambda>thr.
       build_analog_with_flags (clamp_u8 c1) (clamp_u8 c2) (clamp_u8 thr) (clamp_u8 c4) 0
     ))))))))))))"

section \<open>Environment of the control loop\<close>

text \<open>
  The loop talks to three collaborators: the monotonic clock, the key driver and the UDP
  socket. The clock and the key driver are scripted: the world holds the readings that
  \<open>time.monotonic()\<close> and \<open>read_key()\<close> will return, in order, and each call takes the
  next one. What the program does to the outside (a datagram sent, a key poll, a sleep)
  is appended to the trace, oldest first. Sending is taken to succeed.
\<close>

datatype event = Sent "int list" | Polled "string option" | Slept real

record world =
  platform :: string
  clock :: "real list"
  keys :: "string option list"
  trace :: "event list"

text \<open>
  How a piece of the loop ends: it goes on with a value, \<open>run\<close> returns an exit code, an
  exception propagates, or the script of the world ran out while the program was still
  running.
\<close>

datatype 'a outcome = Continue 'a | Returned int | Raised error | Exhausted

text \<open>\<open>time.monotonic()\<close>: the next clock reading, if the script has one.\<close>

definition monotonic :: "world \<Rightarrow> (real \<times> world) option" where
  "monotonic w = (case clock w of [] \<Rightarrow> None | t # rest \<Rightarrow> Some (t, w\<lparr>clock := rest\<rparr>))"

text \<open>
  \<open>read_key()\<close> of ufo\_input\_windows.py, seen from the loop: the next normalized token
  (\<open>None\<close> when no key is pending), if the script has one. The decoding of raw console
  characters is not modelled.
\<close>

definition read_key :: "world \<Rightarrow> (string option \<times> world) option" where
  "read_key w =
     (case keys w of
        [] \<Rightarrow> None
      | k # rest \<Rightarrow> Some (k, w\<lparr>keys := rest, trace := trace w @ [Polled k]\<rparr>))"

text \<open>\<open>sock.sendto(pkt, dst)\<close> and \<open>time.sleep(secs)\<close>.\<close>

definition sendto :: "world \<Rightarrow> int list \<Rightarrow> world" where
  "sendto w pkt = w\<lparr>trace := trace w @ [Sent pkt]\<rparr>"

definition sleep :: "world \<Rightarrow> real \<Rightarrow> world" where
  "sleep w secs = w\<lparr>trace := trace w @ [Slept secs]\<rparr>"

text \<open>Python's float division: dividing by zero raises.\<close>

definition py_truediv :: "real \<Rightarrow> real \<Rightarrow> error + real" where
  "py_truediv a b = (if b = 0 then Inl ZeroDivisionError else Inr (a / b))"

section \<open>Control loop (ufo\_controller.py)\<close>

lemma monotonic_clock [termination_simp]:
  "monotonic w = Some (t, w1) \<Longrightarrow> length (clock w1) < length (clock w)"
  by (auto simp: monotonic_def split: list.splits)

lemma sendto_simps [simp]:
  "clock (sendto w p) = clock w" "keys (sendto w p) = keys w"
  "platform (sendto w p) = platform w" "trace (sendto w p) = trace w @ [Sent p]"
  by (simp_all add: sendto_def)

lemma sleep_simps [simp]:
  "clock (sleep w d) = clock w" "keys (sleep w d) = keys w"
  "platform (sleep w d) = platform w" "trace (sleep w d) = trace w @ [Slept d]"
  by (simp_all add: sleep_def)

text \<open>
  The \<open>while True\<close> loop of \<open>send_takeoff_burst\<close>, lines 27-42. Each iteration reads the
  clock once, so the recursion ends with the script.
\<close>

function burst_loop :: "Args \<Rightarrow> real \<Rightarrow> real \<Rightarrow> real \<Rightarrow> world \<Rightarrow> unit outcome \<times> world" where
  "burst_loop args t_takeoff_end takeoff_period next_takeoff w =
     (case monotonic w of
        None \<Rightarrow> (Exhausted, w)
      | Some (now, w1) \<Rightarrow>
          if now \<ge> t_takeoff_end then (Continue (), w1)
          else if now \<ge> next_takeoff then
            (case build_analog_with_flags (c1_center args) (c2_center args) (thr_base args)
                    (c4_center args) 1 of
               Inl e \<Rightarrow> (Raised e, w1)
             | Inr pkt \<Rightarrow>
                 burst_loop args t_takeoff_end takeoff_period (next_takeoff + takeoff_period)
                   (sendto w1 pkt))
          else
            burst_loop args t_takeoff_end takeoff_period next_takeoff
              (sleep w1 (max 0 (min (1 / 100) (next_takeoff - now)))))"
  by pat_completeness auto
termination
  by (relation "measure (\<lambda>(args, t_end, period, nxt, w). length (clock w))")
     (auto simp: monotonic_clock)

declare burst_loop.simps [simp del]

text \<open>\<open>send_takeoff_burst\<close>, lines 17-42.\<close>

definition send_takeoff_burst :: "Args \<Rightarrow> real \<Rightarrow> world \<Rightarrow> unit outcome \<times> world" where
  "send_takeoff_burst args duration_s w =
     (case monotonic w of
        None \<Rightarrow> (Exhausted, w)
      | Some (t, w1) \<Rightarrow>
          (case py_truediv 1 (rate_hz args) of
             Inl e \<Rightarrow> (Raised e, w1)
           | Inr takeoff_period \<Rightarrow>
               (case monotonic w1 of
                  None \<Rightarrow> (Exhausted, w1)
                | Some (next_takeoff, w2) \<Rightarrow>
                    burst_loop args (t + duration_s) takeoff_period next_takeoff w2)))"

text \<open>
  What a burst does to the world: it polls no key, and every event it appends is a sleep
  or the takeoff frame. The drain loop below terminates because of the first part.
\<close>

fun burst_event :: "Args \<Rightarrow> event \<Rightarrow> bool" where
  "burst_event args (Sent p) =
     (build_analog_with_flags (c1_center args) (c2_center args) (thr_base args)
        (c4_center args) 1 = Inr p)"
| "burst_event args (Slept d) = True"
| "burst_event args (Polled k) = False"

definition burst_post :: "Args \<Rightarrow> world \<Rightarrow> unit outcome \<Rightarrow> world \<Rightarrow> bool" where
  "burst_post args w r w' \<longleftrightarrow>
     keys w' = keys w \<and> platform w' = platform w \<and> length (clock w') \<le> length (clock w)
     \<and> (\<forall>x. r \<noteq> Returned x)
     \<and> (\<exists>evs. trace w' = trace w @ evs \<and> list_all (burst_event args) evs)"

lemma burst_post_refl: "(\<forall>x. r \<noteq> Returned x) \<Longrightarrow> burst_post args w r w"
  by (simp add: burst_post_def)

lemma monotonic_Some:
  assumes "monotonic w = Some (t, w1)"
  shows "keys w1 = keys w" "platform w1 = platform w" "trace w1 = trace w"
    "clock w = t # clock w1"
  using assms by (auto simp: monotonic_def split: list.splits)

lemma burst_post_step:
  assumes "burst_post args w1 r w'" "keys w1 = keys w" "platform w1 = platform w"
    "length (clock w1) \<le> length (clock w)" "trace w1 = trace w @ evs0"
    "list_all (burst_event args) evs0"
  shows "burst_post args w r w'"
proof -
  from assms(1) obtain evs where e: "trace w' = trace w1 @ evs" "list_all (burst_event args) evs"
    by (auto simp: burst_post_def)
  have "trace w' = trace w @ (evs0 @ evs)" using e(1) assms(5) by simp
  moreover have "list_all (burst_event args) (evs0 @ evs)" using e(2) assms(6) by simp
  ultimately have "\<exists>evs. trace w' = trace w @ evs \<and> list_all (burst_event args) evs" by blast
  then show ?thesis using assms(1-4) by (simp add: burst_post_def)
qed

lemma burst_loop_post:
  "burst_loop args te p n w = (r, w') \<Longrightarrow> burst_post args w r w'"
proof (induction args te p n w arbitrary: r w' rule: burst_loop.induct)
  case (1 args te p n w)
  note eq = "1.prems"
  show ?case
  proof (cases "monotonic w")
    case None
    with eq have "r = Exhausted" "w' = w" by (simp_all add: burst_loop.simps)
    then show ?thesis by (simp add: burst_post_refl)
  next
    case (Some a)
    obtain now w1 where a: "a = (now, w1)" by (cases a)
    have m: "monotonic w = Some (now, w1)" using Some a by simp
    note w1 = monotonic_Some [OF m]
    have len: "length (clock w1) \<le> length (clock w)" using w1(4) by simp
    have base: "\<And>r. (\<forall>x. r \<noteq> Returned x) \<Longrightarrow> burst_post args w r w1"
      using w1 len by (simp add: burst_post_def)
    show ?thesis
    proof (cases "te \<le> now")
      case True
      with eq m have "r = Continue ()" "w' = w1" by (simp_all add: burst_loop.simps)
      then show ?thesis using base by simp
    next
      case nd: False
      show ?thesis
      proof (cases "n \<le> now")
        case True
        show ?thesis
        proof (cases "build_analog_with_flags (c1_center args) (c2_center args) (thr_base args)
                        (c4_center args) 1")
          case (Inl e)
          with eq m nd True have "r = Raised e" "w' = w1" by (simp_all add: burst_loop.simps)
          then show ?thesis using base by simp
        next
          case (Inr pkt)
          with eq m nd True
          have "burst_loop args te p (n + p) (sendto w1 pkt) = (r, w')"
            by (simp add: burst_loop.simps)
          then have "burst_post args (sendto w1 pkt) r w'"
            using "1.IH"(1) [OF m refl nd True Inr] by simp
          then show ?thesis
            by (rule burst_post_step [where ?evs0.0 = "[Sent pkt]"])
               (simp_all add: w1 len Inr)
        qed
      next
        case False
        with eq m nd
        have "burst_loop args te p n (sleep w1 (max 0 (min (1 / 100) (n - now)))) = (r, w')"
          by (simp add: burst_loop.simps)
        then have "burst_post args (sleep w1 (max 0 (min (1 / 100) (n - now)))) r w'"
          using "1.IH"(2) [OF m refl nd False] by simp
        then show ?thesis
          by (rule burst_post_step [where ?evs0.0 = "[Slept (max 0 (min (1 / 100) (n - now)))]"])
             (simp_all add: w1 len)
      qed
    qed
  qed
qed

lemma send_takeoff_burst_post:
  assumes "send_takeoff_burst args d w = (r, w')"
  shows "burst_post args w r w'"
proof (cases "monotonic w")
  case None
  with assms have "r = Exhausted" "w' = w" by (simp_all add: send_takeoff_burst_def)
  then show ?thesis by (simp add: burst_post_refl)
next
  case (Some a)
  obtain t w1 where m: "monotonic w = Some (t, w1)" using Some by (cases a) simp
  note w1 = monotonic_Some [OF m]
  have step1: "\<And>r w'. burst_post args w1 r w' \<Longrightarrow> burst_post args w r w'"
    by (erule burst_post_step [where ?evs0.0 = "[]"]) (simp_all add: w1)
  show ?thesis
  proof (cases "py_truediv 1 (rate_hz args)")
    case (Inl e)
    with assms m have "r = Raised e" "w' = w1" by (simp_all add: send_takeoff_burst_def)
    then show ?thesis using step1 [OF burst_post_refl] by simp
  next
    case (Inr period)
    show ?thesis
    proof (cases "monotonic w1")
      case None
      with assms m Inr have "r = Exhausted" "w' = w1" by (simp_all add: send_takeoff_burst_def)
      then show ?thesis using step1 [OF burst_post_refl] by simp
    next
      case (Some b)
      obtain nt w2 where m2: "monotonic w1 = Some (nt, w2)" using Some by (cases b) simp
      note w2 = monotonic_Some [OF m2]
      have "burst_loop args (t + d) period nt w2 = (r, w')"
        using assms m Inr m2 by (simp add: send_takeoff_burst_def)
      then have "burst_post args w2 r w'" by (rule burst_loop_post)
      then have "burst_post args w1 r w'"
        by (rule burst_post_step [where ?evs0.0 = "[]"]) (simp_all add: w2)
      then show ?thesis by (rule step1)
    qed
  qed
qed

lemma send_takeoff_burst_keys: "keys (snd (send_takeoff_burst args d w)) = keys w"
  using send_takeoff_burst_post [of args d w "fst (send_takeoff_burst args d w)"
      "snd (send_takeoff_burst args d w)"]
  by (simp add: burst_post_def)

lemma send_takeoff_burst_keys':
  "(r, w') = send_takeoff_burst args d w \<Longrightarrow> keys w' = keys w"
  using send_takeoff_burst_keys [of args d w] by (cases "send_takeoff_burst args d w") simp

lemma read_key_keys:
  "read_key w = Some (k, w1) \<Longrightarrow> length (keys w1) < length (keys w)"
  by (auto simp: read_key_def split: list.splits)

text \<open>
  The key-drain loop of \<open>run\<close>, lines 90-105, at the loop time \<open>now\<close>. Any token other
  than \<open>quit\<close>, \<open>e\<close> and \<open>r\<close> is stored in the dictionary.
\<close>

function drain :: "Args \<Rightarrow> real \<Rightarrow> key_times \<Rightarrow> world \<Rightarrow> key_times outcome \<times> world" where
  "drain args now t_last w =
     (case read_key w of
        None \<Rightarrow> (Exhausted, w)
      | Some (k, w1) \<Rightarrow>
          (case k of
             None \<Rightarrow> (Continue t_last, w1)
           | Some k \<Rightarrow>
               if k = ''quit'' then (Returned 0, w1)
               else if k = ''e'' then
                 (case send_takeoff_burst args 1 w1 of
                    (Continue u, w2) \<Rightarrow> drain args now t_last w2
                  | (Returned r, w2) \<Rightarrow> (Returned r, w2)
                  | (Raised e, w2) \<Rightarrow> (Raised e, w2)
                  | (Exhausted, w2) \<Rightarrow> (Exhausted, w2))
               else if k = ''r'' then drain args now (reset_all t_last) w1
               else drain args now (record_key t_last k now) w1))"
  by pat_completeness auto
termination
  by (relation "measure (\<lambda>(args, now, t_last, w). length (keys w))")
     (auto dest!: send_takeoff_burst_keys' read_key_keys)

declare drain.simps [simp del]

text \<open>The analog send of one iteration, lines 107-136.\<close>

definition analog_step ::
  "Args \<Rightarrow> real \<Rightarrow> real \<Rightarrow> real \<Rightarrow> key_times \<Rightarrow> real \<Rightarrow> world
     \<Rightarrow> (error + real \<times> bool) \<times> world" where
  "analog_step args hold_s analog_period now t_last next_analog w =
     (if now \<ge> next_analog then
        (case analog_packet args hold_s t_last now of
           Inl e \<Rightarrow> (Inl e, w)
         | Inr pkt \<Rightarrow> (Inr (next_analog + analog_period, True), sendto w pkt))
      else (Inr (next_analog, False), w))"

text \<open>
  The keepalive send, lines 138-141. \<open>next_ka\<close> and \<open>ka_period\<close> are both \<open>None\<close> or both
  set (lines 80-84); adding \<open>None\<close> to a float would raise \<open>TypeError\<close>.
\<close>

definition keepalive_step ::
  "real option \<Rightarrow> real \<Rightarrow> real option \<Rightarrow> bool \<Rightarrow> world
     \<Rightarrow> (error + real option \<times> bool) \<times> world" where
  "keepalive_step ka_period now next_ka did w =
     (case next_ka of
        None \<Rightarrow> (Inr (next_ka, did), w)
      | Some nk \<Rightarrow>
          if now \<ge> nk then
            (case ka_period of
               None \<Rightarrow> (Inl TypeError, sendto w KEEPALIVE_0101)
             | Some p \<Rightarrow> (Inr (Some (nk + p), True), sendto w KEEPALIVE_0101))
          else (Inr (next_ka, did), w))"

text \<open>The sleep when nothing was due, lines 143-145.\<close>

definition sleep_step :: "real \<Rightarrow> real \<Rightarrow> real option \<Rightarrow> bool \<Rightarrow> world \<Rightarrow> world" where
  "sleep_step now next_analog next_ka did w =
     (if \<not> did then
        let t_next = (case next_ka of None \<Rightarrow> next_analog | Some nk \<Rightarrow> min next_analog nk)
        in sleep w (max 0 (min (1 / 100) (t_next - now)))
      else w)"

text \<open>Lines 107-145 together: what one iteration does after the drain.\<close>

definition tick ::
  "Args \<Rightarrow> real \<Rightarrow> real \<Rightarrow> real option \<Rightarrow> real \<Rightarrow> key_times \<Rightarrow> real \<Rightarrow> real option \<Rightarrow> world
     \<Rightarrow> (error + real \<times> real option) \<times> world" where
  "tick args hold_s analog_period ka_period now t_last next_analog next_ka w =
     (case analog_step args hold_s analog_period now t_last next_analog w of
        (Inl e, w1) \<Rightarrow> (Inl e, w1)
      | (Inr (next_analog', did), w1) \<Rightarrow>
          (case keepalive_step ka_period now next_ka did w1 of
             (Inl e, w2) \<Rightarrow> (Inl e, w2)
           | (Inr (next_ka', did'), w2) \<Rightarrow>
               (Inr (next_analog', next_ka'), sleep_step now next_analog' next_ka' did' w2)))"

text \<open>A tick polls no key and reads no clock: it only sends and sleeps.\<close>

fun output_event :: "event \<Rightarrow> bool" where
  "output_event (Sent p) = True"
| "output_event (Slept d) = True"
| "output_event (Polled k) = False"

definition tick_post :: "world \<Rightarrow> world \<Rightarrow> bool" where
  "tick_post w w' \<longleftrightarrow>
     keys w' = keys w \<and> platform w' = platform w \<and> clock w' = clock w
     \<and> (\<exists>evs. trace w' = trace w @ evs \<and> list_all output_event evs)"

lemma tick_post_refl: "tick_post w w"
  by (simp add: tick_post_def)

lemma tick_post_trans: "tick_post w w1 \<Longrightarrow> tick_post w1 w2 \<Longrightarrow> tick_post w w2"
  by (auto simp: tick_post_def)

lemma tick_post_sendto: "tick_post w (sendto w p)"
  by (simp add: tick_post_def)

lemma tick_post_sleep: "tick_post w (sleep w d)"
  by (simp add: tick_post_def)

lemma analog_step_post: "analog_step args hs ap now kt na w = (r, w') \<Longrightarrow> tick_post w w'"
  by (auto simp: analog_step_def tick_post_refl tick_post_sendto split: if_splits sum.splits)

lemma keepalive_step_post: "keepalive_step kp now nk did w = (r, w') \<Longrightarrow> tick_post w w'"
  by (auto simp: keepalive_step_def tick_post_refl tick_post_sendto
      split: if_splits option.splits)

lemma sleep_step_post: "tick_post w (sleep_step now na nk did w)"
  by (simp add: sleep_step_def tick_post_refl tick_post_sleep Let_def)

lemma tick_post_tick:
  assumes "tick args hs ap kp now kt na nk w = (r, w')"
  shows "tick_post w w'"
proof -
  obtain r1 w1 where a: "analog_step args hs ap now kt na w = (r1, w1)"
    by (cases "analog_step args hs ap now kt na w")
  note p1 = analog_step_post [OF a]
  show ?thesis
  proof (cases r1)
    case (Inl e)
    with assms a have "w' = w1" by (simp add: tick_def)
    then show ?thesis using p1 by simp
  next
    case (Inr x)
    obtain na' did where x: "x = (na', did)" by (cases x)
    obtain r2 w2 where k: "keepalive_step kp now nk did w1 = (r2, w2)"
      by (cases "keepalive_step kp now nk did w1")
    note p2 = tick_post_trans [OF p1 keepalive_step_post [OF k]]
    show ?thesis
    proof (cases r2)
      case (Inl e)
      with assms a Inr x k have "w' = w2" by (simp add: tick_def)
      then show ?thesis using p2 by simp
    next
      case r2: (Inr y)
      obtain nk' did' where y: "y = (nk', did')" by (cases y)
      from assms a Inr x k r2 y have "w' = sleep_step now na' nk' did' w2"
        by (simp add: tick_def)
      then show ?thesis using tick_post_trans [OF p2 sleep_step_post] by simp
    qed
  qed
qed

lemma tick_clock: "(r, w') = tick args hs ap kp now kt na nk w \<Longrightarrow> clock w' = clock w"
  using tick_post_tick [of args hs ap kp now kt na nk w r w'] by (simp add: tick_post_def)

lemma send_takeoff_burst_clock:
  "(r, w') = send_takeoff_burst args d w \<Longrightarrow> length (clock w') \<le> length (clock w)"
  using send_takeoff_burst_post [of args d w r w'] by (simp add: burst_post_def)

lemma read_key_Some:
  assumes "read_key w = Some (k, w1)"
  shows "clock w1 = clock w" "platform w1 = platform w" "trace w1 = trace w @ [Polled k]"
    "keys w = k # keys w1"
  using assms by (auto simp: read_key_def split: list.splits)

lemma drain_clock: "drain args now kt w = (r, w') \<Longrightarrow> length (clock w') \<le> length (clock w)"
proof (induction args now kt w arbitrary: r w' rule: drain.induct)
  case (1 args now t_last w)
  note eq = "1.prems"
  show ?case
  proof (cases "read_key w")
    case None
    with eq show ?thesis by (simp add: drain.simps)
  next
    case (Some a)
    obtain k w1 where rk: "read_key w = Some (k, w1)" using Some by (cases a) simp
    note w1 = read_key_Some [OF rk]
    show ?thesis
    proof (cases k)
      case None
      with eq rk w1 show ?thesis by (simp add: drain.simps)
    next
      case k: (Some tok)
      consider (quit) "tok = ''quit''" | (e) "tok \<noteq> ''quit''" "tok = ''e''"
        | (r) "tok \<noteq> ''quit''" "tok \<noteq> ''e''" "tok = ''r''"
        | (key) "tok \<noteq> ''quit''" "tok \<noteq> ''e''" "tok \<noteq> ''r''" by blast
      then show ?thesis
      proof cases
        case quit
        with eq rk k w1 show ?thesis by (simp add: drain.simps)
      next
        case e
        obtain rb w2 where b: "send_takeoff_burst args 1 w1 = (rb, w2)"
          by (cases "send_takeoff_burst args 1 w1")
        have l2: "length (clock w2) \<le> length (clock w)"
          using send_takeoff_burst_clock [OF b [symmetric]] w1 by simp
        show ?thesis
        proof (cases rb)
          case (Continue u)
          with eq rk k e b have "drain args now t_last w2 = (r, w')"
            by (simp add: drain.simps)
          from "1.IH"(1) [OF rk refl k e(1) e(2) b [symmetric] Continue this]
          show ?thesis using l2 by simp
        next
          case (Returned x)
          with eq rk k e b l2 show ?thesis by (simp add: drain.simps)
        next
          case (Raised x)
          with eq rk k e b l2 show ?thesis by (simp add: drain.simps)
        next
          case Exhausted
          with eq rk k e b l2 show ?thesis by (simp add: drain.simps)
        qed
      next
        case r
        with eq rk k have "drain args now (reset_all t_last) w1 = (r, w')"
          by (simp add: drain.simps)
        from "1.IH"(2) [OF rk refl k r(1) r(2) r(3) this] show ?thesis using w1 by simp
      next
        case key
        with eq rk k have "drain args now (record_key t_last tok now) w1 = (r, w')"
          by (simp add: drain.simps)
        from "1.IH"(3) [OF rk refl k key(1) key(2) key(3) this] show ?thesis using w1 by simp
      qed
    qed
  qed
qed


lemma drain_clock':
  "(r, w') = drain args now kt w \<Longrightarrow> length (clock w') \<le> length (clock w)"
  using drain_clock [of args now kt w r w'] by simp

text \<open>The steady-state loop of \<open>run\<close>, lines 87-145.\<close>

function steady ::
  "Args \<Rightarrow> real \<Rightarrow> real \<Rightarrow> real option \<Rightarrow> key_times \<Rightarrow> real \<Rightarrow> real option \<Rightarrow> world
     \<Rightarrow> unit outcome \<times> world" where
  "steady args hold_s analog_period ka_period t_last next_analog next_ka w =
     (case monotonic w of
        None \<Rightarrow> (Exhausted, w)
      | Some (now, w1) \<Rightarrow>
          (case drain args now t_last w1 of
             (Continue t_last', w2) \<Rightarrow>
               (case tick args hold_s analog_period ka_period now t_last' next_analog next_ka w2 of
                  (Inl e, w3) \<Rightarrow> (Raised e, w3)
                | (Inr (next_analog', next_ka'), w3) \<Rightarrow>
                    steady args hold_s analog_period ka_period t_last' next_analog' next_ka' w3)
           | (Returned r, w2) \<Rightarrow> (Returned r, w2)
           | (Raised e, w2) \<Rightarrow> (Raised e, w2)
           | (Exhausted, w2) \<Rightarrow> (Exhausted, w2)))"
  by pat_completeness auto
termination
  by (relation "measure (\<lambda>(args, hold_s, ap, kp, t_last, na, nk, w). length (clock w))")
     (auto dest!: drain_clock' tick_clock monotonic_clock)

declare steady.simps [simp del]

text \<open>\<open>run\<close>, lines 45-147.\<close>

definition run :: "Args \<Rightarrow> world \<Rightarrow> unit outcome \<times> world" where
  "run args w =
     (if platform w \<noteq> ''win32'' then
        (Raised (SystemExit ''send_ufo_keyboard.py currently supports Windows console only.''), w)
      else
        (case hold_s_of args of
           Inl e \<Rightarrow> (Raised e, w)
         | Inr hold_s \<Rightarrow>
        (case send_takeoff_burst args 1 w of
           (Continue u, w1) \<Rightarrow>
             (case py_truediv 1 (rate_hz args) of
                Inl e \<Rightarrow> (Raised e, w1)
              | Inr analog_period \<Rightarrow>
                  (case (if send_keepalive args
                         then (case py_truediv 1 (keepalive_hz args) of
                                 Inl e \<Rightarrow> Inl e | Inr p \<Rightarrow> Inr (Some p))
                         else Inr None) of
                     Inl e \<Rightarrow> (Raised e, w1)
                   | Inr ka_period \<Rightarrow>
                       (case monotonic w1 of
                          None \<Rightarrow> (Exhausted, w1)
                        | Some (t0, w2) \<Rightarrow>
                            steady args hold_s analog_period ka_period t_last_init t0
                              (if ka_period \<noteq> None then Some t0 else None) w2)))
         | (Returned r, w1) \<Rightarrow> (Returned r, w1)
         | (Raised e, w1) \<Rightarrow> (Raised e, w1)
         | (Exhausted, w1) \<Rightarrow> (Exhausted, w1))))"

text \<open>
  The shape of the events a piece of the loop appends: when it makes \<open>run\<close> return, the
  code is 0 and the \<open>quit\<close> poll is the last event and the only one; otherwise no \<open>quit\<close>
  was polled.
\<close>

definition quit_event :: event where
  "quit_event = Polled (Some ''quit'')"

definition quit_last :: "'a outcome \<Rightarrow> event list \<Rightarrow> bool" where
  "quit_last r evs \<longleftrightarrow>
     (case r of
        Returned x \<Rightarrow> x = 0 \<and> (\<exists>pre. evs = pre @ [quit_event] \<and> quit_event \<notin> set pre)
      | Continue _ \<Rightarrow> quit_event \<notin> set evs
      | Raised _ \<Rightarrow> quit_event \<notin> set evs
      | Exhausted \<Rightarrow> quit_event \<notin> set evs)"

definition quit_post :: "world \<Rightarrow> 'a outcome \<Rightarrow> world \<Rightarrow> bool" where
  "quit_post w r w' \<longleftrightarrow> (\<exists>evs. trace w' = trace w @ evs \<and> quit_last r evs)"

section \<open>Properties of the codec\<close>

lemma u8_in_range: "0 \<le> x \<Longrightarrow> x \<le> 255 \<Longrightarrow> u8 x = Inr x"
  by (simp add: u8_def)

lemma u8_out_of_range: "\<not> (0 \<le> x \<and> x \<le> 255) \<Longrightarrow> u8 x = Inl (ValueError x)"
  by (simp add: u8_def)

lemma xor_byte_range:
  fixes a b :: int
  assumes "0 \<le> a" "a \<le> 255" "0 \<le> b" "b \<le> 255"
  shows "0 \<le> a XOR b \<and> a XOR b \<le> 255"
proof -
  have "a < 2 ^ 8" "b < 2 ^ 8" using assms by simp_all
  with assms have "a XOR b < 2 ^ 8" by (intro XOR_upper) simp_all
  moreover have "0 \<le> a XOR b" using assms by simp
  ultimately show ?thesis by simp
qed

lemma and_255_id:
  fixes x :: int
  assumes "0 \<le> x" "x \<le> 255"
  shows "x AND 255 = x"
proof -
  have "x AND 255 = x AND mask 8" by (simp add: mask_eq_exp_minus_1)
  also have "\<dots> = take_bit 8 x" by (simp add: take_bit_eq_mask)
  also have "\<dots> = x" using assms by (simp add: take_bit_int_eq_self)
  finally show ?thesis .
qed

lemma and_255_range:
  fixes x :: int
  shows "0 \<le> x AND 255 \<and> x AND 255 < 256"
proof -
  have "x AND 255 = x AND mask 8" by (simp add: mask_eq_exp_minus_1)
  also have "\<dots> = take_bit 8 x" by (simp add: take_bit_eq_mask)
  finally have e: "x AND 255 = take_bit 8 x" .
  have "0 \<le> take_bit 8 x" by simp
  moreover have "take_bit 8 x < 2 ^ 8" by (rule take_bit_int_less_exp)
  ultimately show ?thesis using e by simp
qed

lemma checksum_in_range:
  fixes c1 c2 thr c4 flags :: int
  assumes "0 \<le> c1" "c1 \<le> 255" "0 \<le> c2" "c2 \<le> 255" "0 \<le> thr" "thr \<le> 255"
    "0 \<le> c4" "c4 \<le> 255" "0 \<le> flags" "flags \<le> 255"
  shows "(c1 XOR c2 XOR thr XOR c4 XOR flags) AND 255 = c1 XOR c2 XOR thr XOR c4 XOR flags"
proof -
  have a: "0 \<le> c4 XOR flags \<and> c4 XOR flags \<le> 255"
    using assms by (intro xor_byte_range) simp_all
  have b: "0 \<le> thr XOR c4 XOR flags \<and> thr XOR c4 XOR flags \<le> 255"
    using assms a by (intro xor_byte_range) simp_all
  have c: "0 \<le> c2 XOR thr XOR c4 XOR flags \<and> c2 XOR thr XOR c4 XOR flags \<le> 255"
    using assms b by (intro xor_byte_range) simp_all
  have d: "0 \<le> c1 XOR c2 XOR thr XOR c4 XOR flags \<and> c1 XOR c2 XOR thr XOR c4 XOR flags \<le> 255"
    using assms c by (intro xor_byte_range) simp_all
  show ?thesis using d by (intro and_255_id) simp_all
qed

lemma build_in_range:
  assumes "0 \<le> c1" "c1 \<le> 255" "0 \<le> c2" "c2 \<le> 255" "0 \<le> thr" "thr \<le> 255"
    "0 \<le> c4" "c4 \<le> 255" "0 \<le> flags" "flags \<le> 255"
  shows "build_analog_with_flags c1 c2 thr c4 flags =
           Inr [3, 102, c1, c2, thr, c4, flags, (c1 XOR c2 XOR thr XOR c4 XOR flags) AND 255, 153]"
proof -
  have r: "0 \<le> (c1 XOR c2 XOR thr XOR c4 XOR flags) AND 255"
    "(c1 XOR c2 XOR thr XOR c4 XOR flags) AND 255 < 256"
    using and_255_range [of "c1 XOR c2 XOR thr XOR c4 XOR flags"] by simp_all
  show ?thesis
    using assms r
    by (simp add: build_analog_with_flags_def u8_def bind_e_def Let_def)
qed

text \<open>
  C1. For c1, c2, thr, c4, flags all in 0..255 the encoder returns a frame of exactly nine
  bytes: 0x03, 0x66, then c1, c2, thr, c4, flags in that order, then the checksum
  c1 XOR c2 XOR thr XOR c4 XOR flags, then 0x99.
\<close>

theorem build_analog_with_flags_frame:
  assumes "0 \<le> c1" "c1 \<le> 255" "0 \<le> c2" "c2 \<le> 255" "0 \<le> thr" "thr \<le> 255"
    "0 \<le> c4" "c4 \<le> 255" "0 \<le> flags" "flags \<le> 255"
  shows "\<exists>pkt. build_analog_with_flags c1 c2 thr c4 flags = Inr pkt
           \<and> length pkt = 9
           \<and> pkt ! 0 = 3 \<and> pkt ! 1 = 102
           \<and> pkt ! 2 = c1 \<and> pkt ! 3 = c2 \<and> pkt ! 4 = thr \<and> pkt ! 5 = c4 \<and> pkt ! 6 = flags
           \<and> pkt ! 7 = c1 XOR c2 XOR thr XOR c4 XOR flags
           \<and> pkt ! 8 = 153"
proof -
  have "build_analog_with_flags c1 c2 thr c4 flags =
          Inr [3, 102, c1, c2, thr, c4, flags, c1 XOR c2 XOR thr XOR c4 XOR flags, 153]"
    using build_in_range [OF assms] checksum_in_range [OF assms] by simp
  then show ?thesis by simp
qed

theorem build_analog_with_flags_frame_witness:
  "\<exists>pkt. build_analog_with_flags 128 128 0 128 1 = Inr pkt
         \<and> length pkt = 9
         \<and> pkt ! 0 = 3 \<and> pkt ! 1 = 102
         \<and> pkt ! 2 = 128 \<and> pkt ! 3 = 128 \<and> pkt ! 4 = 0 \<and> pkt ! 5 = 128 \<and> pkt ! 6 = 1
         \<and> pkt ! 7 = (128 XOR 128 XOR 0 XOR 128 XOR 1 :: int)
         \<and> pkt ! 8 = 153"
  using build_analog_with_flags_frame [of 128 128 0 128 1] by simp

text \<open>
  C2. When at least one of c1, c2, thr, c4, flags lies outside 0..255 the encoder raises
  \<open>ValueError\<close> (the range error) and returns no frame; nothing is wrapped or clamped.
\<close>

theorem build_analog_with_flags_range_error:
  assumes "\<not> (0 \<le> c1 \<and> c1 \<le> 255 \<and> 0 \<le> c2 \<and> c2 \<le> 255 \<and> 0 \<le> thr \<and> thr \<le> 255
             \<and> 0 \<le> c4 \<and> c4 \<le> 255 \<and> 0 \<le> flags \<and> flags \<le> 255)"
  shows "\<exists>x. build_analog_with_flags c1 c2 thr c4 flags = Inl (ValueError x)
           \<and> x \<in> {c1, c2, thr, c4, flags} \<and> \<not> (0 \<le> x \<and> x \<le> 255)"
  using assms
  by (auto simp add: build_analog_with_flags_def u8_def bind_e_def)

theorem build_analog_with_flags_range_error_witness:
  "\<exists>x. build_analog_with_flags 128 256 0 (- 1) 0 = Inl (ValueError x)
       \<and> x \<in> {128, 256, 0, - 1, 0} \<and> \<not> (0 \<le> x \<and> x \<le> 255)"
  using build_analog_with_flags_range_error [of 128 256 0 "- 1" 0] by simp

text \<open>
  C3. For every center c in 0..255 the axis mapper returns 0xFF when only the positive
  input is held, 0x00 when only the negative input is held, and c when both or neither
  are held.
\<close>

theorem axis_to_extreme_table:
  assumes "0 \<le> c" "c \<le> 255"
  shows "axis_to_extreme True False c = Inr 255
       \<and> axis_to_extreme False True c = Inr 0
       \<and> axis_to_extreme True True c = Inr c
       \<and> axis_to_extreme False False c = Inr c"
  using assms by (simp add: axis_to_extreme_def u8_def bind_e_def)

theorem axis_to_extreme_table_witness:
  "axis_to_extreme True False 128 = Inr 255
   \<and> axis_to_extreme False True 128 = Inr 0
   \<and> axis_to_extreme True True 128 = Inr 128
   \<and> axis_to_extreme False False 128 = Inr 128"
  using axis_to_extreme_table [of 128] by simp

text \<open>
  C10. The legacy script's encoder returns the same result (frame or range error) as the
  shared module's for all integers, and its axis mapper agrees with the shared module's
  for every center in 0..255 and every pair of booleans.
\<close>

theorem legacy_duplicates_agree:
  "kb_build_analog_with_flags c1 c2 thr c4 flags = build_analog_with_flags c1 c2 thr c4 flags
   \<and> (0 \<le> center \<and> center \<le> 255 \<longrightarrow>
        axis_to_extreme pos_on neg_on center = Inr (kb_axis_to_extreme pos_on neg_on center))"
  by (simp add: kb_build_analog_with_flags_def build_analog_with_flags_def kb_u8_def u8_def
      axis_to_extreme_def kb_axis_to_extreme_def bind_e_def)

theorem legacy_duplicates_agree_witness:
  "kb_build_analog_with_flags 1 2 3 4 5 = build_analog_with_flags 1 2 3 4 5
   \<and> axis_to_extreme True False 128 = Inr (kb_axis_to_extreme True False 128)"
  using legacy_duplicates_agree [of 1 2 3 4 5 128 True False] by simp

lemma axis_to_extreme_valid:
  assumes "0 \<le> c" "c \<le> 255"
  shows "axis_to_extreme p n c = Inr (kb_axis_to_extreme p n c)
       \<and> 0 \<le> kb_axis_to_extreme p n c \<and> kb_axis_to_extreme p n c \<le> 255"
  using assms by (simp add: axis_to_extreme_def kb_axis_to_extreme_def u8_def bind_e_def)

lemma clamp_u8_id: "0 \<le> x \<Longrightarrow> x \<le> 255 \<Longrightarrow> clamp_u8 x = x"
  by (simp add: clamp_u8_def)

lemma bind_e_Inr: "bind_e (Inr x) f = f x"
  by (simp add: bind_e_def)

section \<open>Properties of the double-precision model\<close>

lemmas float_eval = fl64_def round64_def binade_def round_half_even_def pow2_def bit_len.simps
  float_sub_def float_of_int_def Let_def

lemma pow2_pos: "0 < pow2 k"
  by (simp add: pow2_def)

lemma pow2_powr: "pow2 k = 2 powr real_of_int k"
proof (cases "0 \<le> k")
  case True
  then show ?thesis by (simp add: pow2_def powr_realpow [symmetric])
next
  case False
  then have "2 powr real_of_int k = 2 powr (- real (nat (- k)))" by simp
  also have "\<dots> = 1 / 2 powr real (nat (- k))" by (simp only: powr_minus_divide)
  also have "\<dots> = 1 / 2 ^ nat (- k)" by (simp add: powr_realpow)
  finally show ?thesis using False by (simp add: pow2_def)
qed

lemma pow2_add: "pow2 (a + b) = pow2 a * pow2 b"
  by (simp add: pow2_powr powr_add)

lemma pow2_mono: "a \<le> b \<Longrightarrow> pow2 a \<le> pow2 b"
  by (simp add: pow2_powr)

lemma pow2_less_iff: "pow2 a < pow2 b \<longleftrightarrow> a < b"
  by (simp add: pow2_powr)

lemma pow2_nat: "pow2 (int n) = 2 ^ n"
  by (simp add: pow2_def)

lemma pow2_neg_nat: "pow2 (- int n) = 1 / 2 ^ n"
  by (simp add: pow2_powr powr_minus_divide powr_realpow)

lemma bit_len_bounds:
  "0 < n \<Longrightarrow> 2 ^ (bit_len n - 1) \<le> n \<and> n < 2 ^ bit_len n"
proof (induction n rule: bit_len.induct)
  case (1 n)
  show ?case
  proof (cases "n div 2 = 0")
    case True
    with "1.prems" have "n = 1" by (simp add: div_eq_0_iff) 
    then show ?thesis by (simp add: bit_len.simps)
  next
    case False
    then have pos: "0 < n div 2" by simp
    from "1.IH" [OF _ pos] "1.prems"
    have ih: "2 ^ (bit_len (n div 2) - 1) \<le> n div 2" "n div 2 < 2 ^ bit_len (n div 2)"
      by simp_all
    have bl: "bit_len n = Suc (bit_len (n div 2))"
      using "1.prems" by (subst bit_len.simps) simp
    have bpos: "0 < bit_len (n div 2)"
      using pos by (subst bit_len.simps) simp
    then obtain k where k: "bit_len (n div 2) = Suc k" by (cases "bit_len (n div 2)") simp_all
    have lo: "2 ^ Suc k \<le> n"
    proof -
      have "2 * 2 ^ k \<le> 2 * (n div 2)" using ih(1) k by simp
      also have "\<dots> \<le> n" by simp
      finally show ?thesis by simp
    qed
    have hi: "n < 2 ^ Suc (Suc k)"
    proof -
      have "n div 2 + 1 \<le> 2 ^ Suc k" using ih(2) k by simp
      then have "2 * (n div 2) + 2 \<le> 2 * 2 ^ Suc k" by simp
      moreover have "n \<le> 2 * (n div 2) + 1" by presburger
      ultimately show ?thesis by simp
    qed
    show ?thesis using lo hi bl k by simp
  qed
qed

lemma binade_bounds:
  assumes "x \<noteq> 0"
  shows "pow2 (binade x) \<le> \<bar>x\<bar>" "\<bar>x\<bar> < pow2 (binade x + 1)"
proof -
  have "pow2 (binade x) \<le> \<bar>x\<bar> \<and> \<bar>x\<bar> < pow2 (binade x + 1)"
  proof (cases "1 \<le> \<bar>x\<bar>")
    case True
    define n where "n = nat \<lfloor>\<bar>x\<bar>\<rfloor>"
    have n1: "0 < n" using True by (simp add: n_def)
    have "real_of_int \<lfloor>\<bar>x\<bar>\<rfloor> \<le> \<bar>x\<bar>" "\<bar>x\<bar> < real_of_int \<lfloor>\<bar>x\<bar>\<rfloor> + 1"
      by linarith+
    moreover have "real n = real_of_int \<lfloor>\<bar>x\<bar>\<rfloor>" using True by (simp add: n_def)
    ultimately have nx: "real n \<le> \<bar>x\<bar>" "\<bar>x\<bar> < real n + 1" by simp_all
    from bit_len_bounds [OF n1] have b: "2 ^ (bit_len n - 1) \<le> n" "n < 2 ^ bit_len n"
      by simp_all
    have blpos: "0 < bit_len n" using n1 by (subst bit_len.simps) simp
    have e: "binade x = int (bit_len n - 1)"
      using True blpos by (simp add: binade_def n_def)
    have e1: "binade x + 1 = int (bit_len n)" using e blpos by simp
    have "(2::real) ^ (bit_len n - 1) \<le> real n"
      using b(1) by (metis of_nat_le_iff of_nat_numeral of_nat_power)
    then have "(2::real) ^ (bit_len n - 1) \<le> \<bar>x\<bar>" using nx(1) by (rule order_trans)
    then have lo: "pow2 (binade x) \<le> \<bar>x\<bar>" by (simp only: e pow2_nat)
    have "n + 1 \<le> 2 ^ bit_len n" using b(2) by simp
    then have "real (n + 1) \<le> 2 ^ bit_len n"
      by (metis of_nat_le_iff of_nat_numeral of_nat_power)
    then have "real n + 1 \<le> 2 ^ bit_len n" by simp
    with nx(2) have "\<bar>x\<bar> < 2 ^ bit_len n" by (rule less_le_trans)
    then have hi: "\<bar>x\<bar> < pow2 (binade x + 1)" by (simp only: e1 pow2_nat)
    show ?thesis using lo hi by simp
  next
    case False
    then have small: "\<bar>x\<bar> < 1" by simp
    have xpos: "0 < \<bar>x\<bar>" using assms by simp
    define y where "y = 1 / \<bar>x\<bar>"
    have y1: "1 < y" using small xpos by (simp add: y_def)
    define m where "m = nat (\<lceil>y\<rceil> - 1)"
    have c2: "2 \<le> \<lceil>y\<rceil>" using y1 by linarith
    then have m1: "0 < m" by (simp add: m_def)
    have "real_of_int \<lceil>y\<rceil> - 1 < y" "y \<le> real_of_int \<lceil>y\<rceil>" by linarith+
    moreover have "real m = real_of_int \<lceil>y\<rceil> - 1" using c2 by (simp add: m_def)
    ultimately have my: "real m < y" "y \<le> real m + 1" by simp_all
    from bit_len_bounds [OF m1] have b: "2 ^ (bit_len m - 1) \<le> m" "m < 2 ^ bit_len m"
      by simp_all
    have e: "binade x = - int (bit_len m)"
      using False by (simp add: binade_def m_def y_def)
    have blpos: "0 < bit_len m" using m1 by (subst bit_len.simps) simp
    have e1: "binade x + 1 = - int (bit_len m - 1)" using e blpos by simp
    have "m + 1 \<le> 2 ^ bit_len m" using b(2) by simp
    then have "real (m + 1) \<le> 2 ^ bit_len m"
      by (metis of_nat_le_iff of_nat_numeral of_nat_power)
    then have "real m + 1 \<le> 2 ^ bit_len m" by simp
    with my(2) have "y \<le> 2 ^ bit_len m" by (rule order_trans)
    then have "1 / \<bar>x\<bar> \<le> 2 ^ bit_len m" by (simp add: y_def)
    then have "1 \<le> 2 ^ bit_len m * \<bar>x\<bar>" using xpos by (simp add: field_simps)
    then have "1 / 2 ^ bit_len m \<le> \<bar>x\<bar>" by (simp add: field_simps)
    then have lo: "pow2 (binade x) \<le> \<bar>x\<bar>" by (simp only: e pow2_neg_nat)
    have "(2::real) ^ (bit_len m - 1) \<le> real m"
      using b(1) by (metis of_nat_le_iff of_nat_numeral of_nat_power)
    then have "2 ^ (bit_len m - 1) < y" using my(1) by (rule le_less_trans)
    then have "2 ^ (bit_len m - 1) < 1 / \<bar>x\<bar>" by (simp add: y_def)
    then have "2 ^ (bit_len m - 1) * \<bar>x\<bar> < 1" using xpos by (simp add: field_simps)
    then have "\<bar>x\<bar> < 1 / 2 ^ (bit_len m - 1)" by (simp add: field_simps)
    then have hi: "\<bar>x\<bar> < pow2 (binade x + 1)" by (simp only: e1 pow2_neg_nat)
    show ?thesis using lo hi by simp
  qed
  then show "pow2 (binade x) \<le> \<bar>x\<bar>" "\<bar>x\<bar> < pow2 (binade x + 1)" by simp_all
qed

lemma round_half_even_error: "\<bar>real_of_int (round_half_even z) - z\<bar> \<le> 1 / 2"
proof -
  have "real_of_int \<lfloor>z\<rfloor> \<le> z" "z < real_of_int \<lfloor>z\<rfloor> + 1" by linarith+
  then show ?thesis by (auto simp: round_half_even_def Let_def abs_le_iff)
qed

lemma round64_error:
  assumes "\<bar>x\<bar> < pow2 k" "- 1021 \<le> k"
  shows "\<bar>round64 x - x\<bar> \<le> pow2 (k - 54)"
proof (cases "x = 0")
  case True
  then show ?thesis using pow2_pos [of "k - 54"] by (simp add: round64_def)
next
  case False
  define e where "e = max (binade x) (- 1022)"
  define q where "q = pow2 (e - 52)"
  define r where "r = real_of_int (round_half_even (x / q))"
  have qpos: "0 < q" by (simp add: q_def pow2_pos)
  have rx: "round64 x = r * q" using False by (simp add: round64_def e_def q_def r_def Let_def)
  have "pow2 (binade x) < pow2 k" using binade_bounds(1) [OF False] assms(1) by simp
  then have "binade x < k" by (simp add: pow2_less_iff)
  then have ek: "e \<le> k - 1" using assms(2) by (simp add: e_def)
  have "\<bar>r - x / q\<bar> \<le> 1 / 2" unfolding r_def by (rule round_half_even_error)
  then have "\<bar>r - x / q\<bar> * q \<le> 1 / 2 * q" using qpos by (simp add: mult_right_mono)
  moreover have "\<bar>r - x / q\<bar> * q = \<bar>r * q - x\<bar>"
  proof -
    have "\<bar>r - x / q\<bar> * q = \<bar>(r - x / q) * q\<bar>" using qpos by (simp add: abs_mult)
    also have "(r - x / q) * q = r * q - x" using qpos by (simp add: field_simps)
    finally show ?thesis .
  qed
  ultimately have err: "\<bar>round64 x - x\<bar> \<le> q / 2" using rx by simp
  have "q / 2 = pow2 (e - 53)"
  proof -
    have "pow2 (e - 52) = pow2 ((e - 53) + 1)" by simp
    also have "\<dots> = pow2 (e - 53) * pow2 1" by (rule pow2_add)
    finally show ?thesis by (simp add: q_def pow2_def)
  qed
  also have "\<dots> \<le> pow2 (k - 54)" using ek by (intro pow2_mono) simp
  finally show ?thesis using err by simp
qed

lemma fl64_finite:
  assumes "\<bar>x\<bar> < pow2 k" "- 1021 \<le> k" "k \<le> 1023"
  shows "fl64 x = Finite (round64 x)"
proof -
  have "\<bar>round64 x\<bar> \<le> \<bar>x\<bar> + \<bar>round64 x - x\<bar>" by simp
  also have "\<dots> < pow2 k + pow2 (k - 54)" using assms(1) round64_error [OF assms(1,2)] by simp
  also have "\<dots> \<le> pow2 k + pow2 k" using pow2_mono [of "k - 54" k] by simp
  also have "\<dots> = pow2 (k + 1)" using pow2_add [of k 1] by (simp add: pow2_def)
  also have "\<dots> \<le> pow2 1024" using assms(3) by (intro pow2_mono) simp
  finally have "\<bar>round64 x\<bar> < 2 ^ 1024" by (simp add: pow2_def)
  then show ?thesis by (simp add: fl64_def Let_def)
qed

text \<open>The default hold window: 180 ms is the double nearest to 0.18.\<close>

lemma hold_s_of_default: "hold_s_of default_args = Inr (3242591731706757 / 18014398509481984)"
  by (simp add: hold_s_of_def default_args_def bind_e_def float_eval)

text \<open>
  A difference below \<open>2^k\<close> in size is rounded by at most \<open>2^(k-54)\<close>, so away from the
  boundary the rounded test agrees with the exact one.
\<close>

lemma is_on_rounded:
  assumes "t_last name = Some t" "\<bar>now - t\<bar> < pow2 k" "- 1021 \<le> k" "k \<le> 1023"
  shows "is_on t_last hold_s name now = Inr (round64 (now - t) \<le> hold_s)"
  using assms(1) fl64_finite [OF assms(2,3,4)] by (simp add: is_on_def float_sub_def)

lemma is_on_inside:
  assumes "t_last name = Some t" "\<bar>now - t\<bar> < pow2 k" "- 1021 \<le> k" "k \<le> 1023"
    and "now - t \<le> hold_s - pow2 (k - 54)"
  shows "is_on t_last hold_s name now = Inr True"
proof -
  have "\<bar>round64 (now - t) - (now - t)\<bar> \<le> pow2 (k - 54)"
    using assms(2,3) by (rule round64_error)
  then have "round64 (now - t) \<le> hold_s" using assms(5) by linarith
  then show ?thesis using is_on_rounded [where t_last = t_last and name = name, OF assms(1-4)] by simp
qed

lemma is_on_outside:
  assumes "t_last name = Some t" "\<bar>now - t\<bar> < pow2 k" "- 1021 \<le> k" "k \<le> 1023"
    and "hold_s + pow2 (k - 54) < now - t"
  shows "is_on t_last hold_s name now = Inr False"
proof -
  have "\<bar>round64 (now - t) - (now - t)\<bar> \<le> pow2 (k - 54)"
    using assms(2,3) by (rule round64_error)
  then have "\<not> round64 (now - t) \<le> hold_s" using assms(5) by linarith
  then show ?thesis using is_on_rounded [where t_last = t_last and name = name, OF assms(1-4)] by simp
qed

section \<open>Properties of the key state and the analog frame\<close>

text \<open>
  C4. On an analog tick with a valid configuration, the frame is sent and its fields are
  c1 = axis(w held, s held, c1\_center), c2 = axis(d held, a held, c2\_center),
  c4 = axis(right held, left held, c4\_center), and throttle = 0xFF when w is held,
  otherwise axis(up held, down held, thr\_base).
\<close>

theorem analog_packet_fields:
  assumes held: "is_on t_last hold_s ''w'' now = Inr w_on" "is_on t_last hold_s ''s'' now = Inr s_on"
    "is_on t_last hold_s ''a'' now = Inr a_on" "is_on t_last hold_s ''d'' now = Inr d_on"
    "is_on t_last hold_s ''up'' now = Inr up_on" "is_on t_last hold_s ''down'' now = Inr down_on"
    "is_on t_last hold_s ''left'' now = Inr left_on" "is_on t_last hold_s ''right'' now = Inr right_on"
  and valid: "0 \<le> c1_center args" "c1_center args \<le> 255" "0 \<le> c2_center args" "c2_center args \<le> 255"
    "0 \<le> c4_center args" "c4_center args \<le> 255" "0 \<le> thr_base args" "thr_base args \<le> 255"
  shows "\<exists>pkt c1 c2 thr c4. analog_packet args hold_s t_last now = Inr pkt
           \<and> build_analog_with_flags c1 c2 thr c4 0 = Inr pkt
           \<and> pkt ! 2 = c1 \<and> pkt ! 3 = c2 \<and> pkt ! 4 = thr \<and> pkt ! 5 = c4
           \<and> axis_to_extreme w_on s_on (c1_center args) = Inr c1
           \<and> axis_to_extreme d_on a_on (c2_center args) = Inr c2
           \<and> axis_to_extreme right_on left_on (c4_center args) = Inr c4
           \<and> (if w_on then thr = 255 else axis_to_extreme up_on down_on (thr_base args) = Inr thr)"
proof -
  define c1 where "c1 = kb_axis_to_extreme w_on s_on (c1_center args)"
  define c2 where "c2 = kb_axis_to_extreme d_on a_on (c2_center args)"
  define c4 where "c4 = kb_axis_to_extreme right_on left_on (c4_center args)"
  define thr where "thr = (if w_on then 255 else kb_axis_to_extreme up_on down_on (thr_base args))"
  have a1: "axis_to_extreme w_on s_on (c1_center args) = Inr c1" "0 \<le> c1" "c1 \<le> 255"
    using axis_to_extreme_valid [OF valid(1,2), of w_on s_on] by (simp_all add: c1_def)
  have a2: "axis_to_extreme d_on a_on (c2_center args) = Inr c2" "0 \<le> c2" "c2 \<le> 255"
    using axis_to_extreme_valid [OF valid(3,4), of d_on a_on] by (simp_all add: c2_def)
  have a4: "axis_to_extreme right_on left_on (c4_center args) = Inr c4" "0 \<le> c4" "c4 \<le> 255"
    using axis_to_extreme_valid [OF valid(5,6), of right_on left_on] by (simp_all add: c4_def)
  have at: "(if w_on then Inr 255 else axis_to_extreme up_on down_on (thr_base args)) = Inr thr"
    "0 \<le> thr" "thr \<le> 255"
    using axis_to_extreme_valid [OF valid(7,8), of up_on down_on] by (simp_all add: thr_def)
  have at': "if w_on then thr = 255 else axis_to_extreme up_on down_on (thr_base args) = Inr thr"
    using at(1) by (simp split: if_splits)
  have p: "analog_packet args hold_s t_last now = build_analog_with_flags c1 c2 thr c4 0"
    unfolding analog_packet_def held bind_e_Inr a1(1) a2(1) a4(1) at(1)
    using a1 a2 a4 at by (simp add: clamp_u8_id)
  have b: "build_analog_with_flags c1 c2 thr c4 0 =
      Inr [3, 102, c1, c2, thr, c4, 0, (c1 XOR c2 XOR thr XOR c4 XOR 0) AND 255, 153]"
    using a1 a2 a4 at by (intro build_in_range) simp_all
  show ?thesis
    using p b a1(1) a2(1) a4(1) at' by simp
qed

lemma t_last_init_simps:
  "t_last_init ''w'' = Some (- 1000000000)" "t_last_init ''a'' = Some (- 1000000000)"
  "t_last_init ''s'' = Some (- 1000000000)" "t_last_init ''d'' = Some (- 1000000000)"
  "t_last_init ''up'' = Some (- 1000000000)" "t_last_init ''down'' = Some (- 1000000000)"
  "t_last_init ''left'' = Some (- 1000000000)" "t_last_init ''right'' = Some (- 1000000000)"
  by (simp_all add: t_last_init_def)

theorem analog_packet_fields_witness:
  "hold_s_of default_args = Inr (3242591731706757 / 18014398509481984)
   \<and> (\<exists>pkt c1 c2 thr c4.
         analog_packet default_args (3242591731706757 / 18014398509481984)
           (record_key t_last_init ''w'' 10) (81 / 8) = Inr pkt
           \<and> build_analog_with_flags c1 c2 thr c4 0 = Inr pkt
           \<and> pkt ! 2 = c1 \<and> pkt ! 3 = c2 \<and> pkt ! 4 = thr \<and> pkt ! 5 = c4
           \<and> axis_to_extreme True False (c1_center default_args) = Inr c1
           \<and> axis_to_extreme False False (c2_center default_args) = Inr c2
           \<and> axis_to_extreme False False (c4_center default_args) = Inr c4
           \<and> thr = 255)"
proof -
  have "\<exists>pkt c1 c2 thr c4.
         analog_packet default_args (3242591731706757 / 18014398509481984)
           (record_key t_last_init ''w'' 10) (81 / 8) = Inr pkt
           \<and> build_analog_with_flags c1 c2 thr c4 0 = Inr pkt
           \<and> pkt ! 2 = c1 \<and> pkt ! 3 = c2 \<and> pkt ! 4 = thr \<and> pkt ! 5 = c4
           \<and> axis_to_extreme True False (c1_center default_args) = Inr c1
           \<and> axis_to_extreme False False (c2_center default_args) = Inr c2
           \<and> axis_to_extreme False False (c4_center default_args) = Inr c4
           \<and> thr = 255"
    using analog_packet_fields [of "record_key t_last_init ''w'' 10"
         "(3242591731706757 / 18014398509481984)" "81 / 8"
         True False False False False False False False default_args]
    by (simp add: is_on_def record_key_def t_last_init_simps default_args_def float_eval)
  then show ?thesis using hold_s_of_default by simp
qed

text \<open>
  C5. With the default centers (0x80) and base throttle (0x00) and none of the eight
  inputs held, the analog frame of a tick is exactly 03 66 80 80 00 80 00 80 99, and that
  is the frame the steady-state loop sends whenever the analog deadline has passed.
\<close>

theorem idle_frame_default:
  assumes centers: "c1_center args = 128" "c2_center args = 128" "c4_center args = 128"
    "thr_base args = 0"
  and idle: "\<forall>name \<in> set input_names. is_on t_last hold_s name now = Inr False"
  shows "analog_packet args hold_s t_last now = Inr [3, 102, 128, 128, 0, 128, 0, 128, 153]
       \<and> analog_step args hold_s analog_period now t_last next_analog w =
           (if now \<ge> next_analog
            then (Inr (next_analog + analog_period, True),
                  sendto w [3, 102, 128, 128, 0, 128, 0, 128, 153])
            else (Inr (next_analog, False), w))"
proof -
  have h: "is_on t_last hold_s ''w'' now = Inr False" "is_on t_last hold_s ''s'' now = Inr False"
    "is_on t_last hold_s ''a'' now = Inr False" "is_on t_last hold_s ''d'' now = Inr False"
    "is_on t_last hold_s ''up'' now = Inr False" "is_on t_last hold_s ''down'' now = Inr False"
    "is_on t_last hold_s ''left'' now = Inr False" "is_on t_last hold_s ''right'' now = Inr False"
    using idle by (simp_all add: input_names_def)
  have p: "analog_packet args hold_s t_last now = Inr [3, 102, 128, 128, 0, 128, 0, 128, 153]"
    unfolding analog_packet_def h bind_e_Inr centers
    by (simp add: axis_to_extreme_def u8_def bind_e_def clamp_u8_def build_analog_with_flags_def)
  show ?thesis
    using p by (simp add: analog_step_def)
qed

theorem idle_frame_default_witness:
  "hold_s_of default_args = Inr (3242591731706757 / 18014398509481984)
   \<and> c1_center default_args = 128 \<and> c2_center default_args = 128 \<and> c4_center default_args = 128
   \<and> thr_base default_args = 0
   \<and> is_on t_last_init (3242591731706757 / 18014398509481984) ''w'' 5 = Inr False
   \<and> is_on t_last_init (3242591731706757 / 18014398509481984) ''s'' 5 = Inr False
   \<and> is_on t_last_init (3242591731706757 / 18014398509481984) ''a'' 5 = Inr False
   \<and> is_on t_last_init (3242591731706757 / 18014398509481984) ''d'' 5 = Inr False
   \<and> is_on t_last_init (3242591731706757 / 18014398509481984) ''up'' 5 = Inr False
   \<and> is_on t_last_init (3242591731706757 / 18014398509481984) ''down'' 5 = Inr False
   \<and> is_on t_last_init (3242591731706757 / 18014398509481984) ''left'' 5 = Inr False
   \<and> is_on t_last_init (3242591731706757 / 18014398509481984) ''right'' 5 = Inr False
   \<and> analog_packet default_args (3242591731706757 / 18014398509481984) t_last_init 5
       = Inr [3, 102, 128, 128, 0, 128, 0, 128, 153]
   \<and> analog_step default_args (3242591731706757 / 18014398509481984) (1 / 20) 5 t_last_init (99 / 20)
         \<lparr> platform = ''win32'', clock = [], keys = [], trace = [] \<rparr>
       = (Inr (5, True),
          \<lparr> platform = ''win32'', clock = [], keys = [],
             trace = [Sent [3, 102, 128, 128, 0, 128, 0, 128, 153]] \<rparr>)"
proof -
  have c: "c1_center default_args = 128" "c2_center default_args = 128"
    "c4_center default_args = 128" "thr_base default_args = 0"
    by (simp_all add: default_args_def)
  have h: "is_on t_last_init (3242591731706757 / 18014398509481984) ''w'' 5 = Inr False"
    "is_on t_last_init (3242591731706757 / 18014398509481984) ''s'' 5 = Inr False"
    "is_on t_last_init (3242591731706757 / 18014398509481984) ''a'' 5 = Inr False"
    "is_on t_last_init (3242591731706757 / 18014398509481984) ''d'' 5 = Inr False"
    "is_on t_last_init (3242591731706757 / 18014398509481984) ''up'' 5 = Inr False"
    "is_on t_last_init (3242591731706757 / 18014398509481984) ''down'' 5 = Inr False"
    "is_on t_last_init (3242591731706757 / 18014398509481984) ''left'' 5 = Inr False"
    "is_on t_last_init (3242591731706757 / 18014398509481984) ''right'' 5 = Inr False"
    by (simp_all add: is_on_def t_last_init_simps float_eval)
  have i: "\<forall>name \<in> set input_names. is_on t_last_init (3242591731706757 / 18014398509481984) name 5 = Inr False"
    using h by (simp add: input_names_def)
  show ?thesis
    using hold_s_of_default c h idle_frame_default [OF c i, of "1 / 20" "99 / 20"
        "\<lparr> platform = ''win32'', clock = [], keys = [], trace = [] \<rparr>"]
    by (simp add: sendto_def)
qed

text \<open>
  C6 as stated fails: the difference is rounded to a double before the comparison. With
  \<open>--hold-ms 1000000005000\<close> (a hold window of 1000000005 s), an input last active at
  -1e9 and the clock at 5 + 2^-27 (a double), the exact difference exceeds the window,
  but it rounds to 1000000005 and the input is held. And with \<open>--hold-ms 10^17\<close> and a
  key event for w at 0, the time 0 + hold + 1ms computed in doubles is hold itself, so w
  is still held there.
\<close>

theorem is_on_hold_window_counterexample:
  "hold_s_of (default_args \<lparr> hold_ms := 1000000005000 \<rparr>) = Inr 1000000005
   \<and> fl64 (5 + 1 / 2 ^ 27) = Finite (5 + 1 / 2 ^ 27)
   \<and> t_last_init ''w'' = Some (- 1000000000)
   \<and> is_on t_last_init 1000000005 ''w'' (5 + 1 / 2 ^ 27) = Inr True
   \<and> \<not> ((5 + 1 / 2 ^ 27) - (- 1000000000) \<le> (1000000005 :: real))
   \<and> hold_s_of (default_args \<lparr> hold_ms := 100000000000000000 \<rparr>) = Inr 100000000000000
   \<and> round64 (round64 (0 + 100000000000000) + round64 (1 / 1000)) = 100000000000000
   \<and> is_on (record_key t_last_init ''w'' 0) 100000000000000 ''w''
        (round64 (round64 (0 + 100000000000000) + round64 (1 / 1000))) = Inr True"
  by (simp add: hold_s_of_def default_args_def bind_e_def is_on_def record_key_def
      t_last_init_simps float_eval)

text \<open>
  C6, amended. An input is held exactly when the difference now - last\_active, rounded
  to double precision, is at most hold. For a difference below 2^k in size the rounding
  moves it by at most 2^(k-54): the input is held when now - last\_active \<le> hold - 2^(k-54)
  and not held when now - last\_active > hold + 2^(k-54). In particular, for |t0| \<le> 2^31
  and 0 \<le> hold \<le> 2^31 seconds, after a key event for w at t0, w is held at
  t0 + hold - 1ms and not held at t0 + hold + 1ms, both times computed in doubles.
\<close>

theorem is_on_hold_window:
  "(t_last name = Some last_active \<and> \<bar>now - last_active\<bar> < pow2 k \<and> - 1021 \<le> k \<and> k \<le> 1023 \<longrightarrow>
      is_on t_last hold_s name now = Inr (round64 (now - last_active) \<le> hold_s)
      \<and> (now - last_active \<le> hold_s - pow2 (k - 54) \<longrightarrow>
            is_on t_last hold_s name now = Inr True)
      \<and> (hold_s + pow2 (k - 54) < now - last_active \<longrightarrow>
            is_on t_last hold_s name now = Inr False))
   \<and> (\<bar>t0\<bar> \<le> 2 ^ 31 \<and> 0 \<le> hold_s \<and> hold_s \<le> 2 ^ 31 \<longrightarrow>
        is_on (record_key t_last ''w'' t0) hold_s ''w''
          (round64 (round64 (t0 + hold_s) - round64 (1 / 1000))) = Inr True
        \<and> is_on (record_key t_last ''w'' t0) hold_s ''w''
            (round64 (round64 (t0 + hold_s) + round64 (1 / 1000))) = Inr False)"
proof (intro conjI impI)
  assume a: "t_last name = Some last_active \<and> \<bar>now - last_active\<bar> < pow2 k
               \<and> - 1021 \<le> k \<and> k \<le> 1023"
  then have a': "t_last name = Some last_active" "\<bar>now - last_active\<bar> < pow2 k"
    "- 1021 \<le> k" "k \<le> 1023" by simp_all
  show "is_on t_last hold_s name now = Inr (round64 (now - last_active) \<le> hold_s)"
    using a' by (rule is_on_rounded [where t_last = t_last and name = name])
  show "is_on t_last hold_s name now = Inr True"
    if "now - last_active \<le> hold_s - pow2 (k - 54)"
    using a' that by (rule is_on_inside [where t_last = t_last and name = name])
  show "is_on t_last hold_s name now = Inr False"
    if "hold_s + pow2 (k - 54) < now - last_active"
    using a' that by (rule is_on_outside [where t_last = t_last and name = name])
next
  assume b: "\<bar>t0\<bar> \<le> 2 ^ 31 \<and> 0 \<le> hold_s \<and> hold_s \<le> 2 ^ 31"
  then have b': "- 2147483648 \<le> t0" "t0 \<le> 2147483648" "0 \<le> hold_s" "hold_s \<le> 2147483648"
    by (simp_all add: abs_le_iff)
  define c :: real where "c = round64 (1 / 1000)"
  define s where "s = round64 (t0 + hold_s)"
  have cv: "c = 1152921504606847 / 1152921504606846976"
    by (simp add: c_def float_eval)
  have p33: "pow2 33 = 8589934592" "pow2 (33 - 54) = 1 / 2097152"
    by (simp_all add: pow2_def)
  have "\<bar>t0 + hold_s\<bar> < 8589934592" using b' by linarith
  then have "\<bar>t0 + hold_s\<bar> < pow2 33" by (simp only: p33)
  then have "\<bar>round64 (t0 + hold_s) - (t0 + hold_s)\<bar> \<le> pow2 (33 - 54)"
    by (rule round64_error) simp
  then have s: "\<bar>s - (t0 + hold_s)\<bar> \<le> 1 / 2097152" by (simp only: s_def p33)
  have rk: "(record_key t_last ''w'' t0) ''w'' = Some t0" by (simp add: record_key_def)
  show "is_on (record_key t_last ''w'' t0) hold_s ''w''
          (round64 (round64 (t0 + hold_s) - round64 (1 / 1000))) = Inr True"
  proof -
    define n where "n = round64 (s - c)"
    have "\<bar>s - c\<bar> < 8589934592" using b' s cv by linarith
    then have "\<bar>s - c\<bar> < pow2 33" by (simp only: p33)
    then have "\<bar>round64 (s - c) - (s - c)\<bar> \<le> pow2 (33 - 54)"
      by (rule round64_error) simp
    then have n: "\<bar>n - (s - c)\<bar> \<le> 1 / 2097152" by (simp only: n_def p33)
    have "\<bar>n - t0\<bar> < 8589934592" using b' s n cv by linarith
    then have d1: "\<bar>n - t0\<bar> < pow2 33" by (simp only: p33)
    have "n - t0 \<le> hold_s - 1 / 2097152" using s n cv by linarith
    then have d2: "n - t0 \<le> hold_s - pow2 (33 - 54)" by (simp only: p33)
    have "is_on (record_key t_last ''w'' t0) hold_s ''w'' n = Inr True"
      using rk d1 _ _ d2
      by (rule is_on_inside [where t_last = "record_key t_last ''w'' t0" and name = "''w''"])
         simp_all
    then show ?thesis by (simp only: n_def s_def c_def)
  qed
  show "is_on (record_key t_last ''w'' t0) hold_s ''w''
          (round64 (round64 (t0 + hold_s) + round64 (1 / 1000))) = Inr False"
  proof -
    define n where "n = round64 (s + c)"
    have "\<bar>s + c\<bar> < 8589934592" using b' s cv by linarith
    then have "\<bar>s + c\<bar> < pow2 33" by (simp only: p33)
    then have "\<bar>round64 (s + c) - (s + c)\<bar> \<le> pow2 (33 - 54)"
      by (rule round64_error) simp
    then have n: "\<bar>n - (s + c)\<bar> \<le> 1 / 2097152" by (simp only: n_def p33)
    have "\<bar>n - t0\<bar> < 8589934592" using b' s n cv by linarith
    then have d1: "\<bar>n - t0\<bar> < pow2 33" by (simp only: p33)
    have "hold_s + 1 / 2097152 < n - t0" using s n cv by linarith
    then have d2: "hold_s + pow2 (33 - 54) < n - t0" by (simp only: p33)
    have "is_on (record_key t_last ''w'' t0) hold_s ''w'' n = Inr False"
      using rk d1 _ _ d2
      by (rule is_on_outside [where t_last = "record_key t_last ''w'' t0" and name = "''w''"])
         simp_all
    then show ?thesis by (simp only: n_def s_def c_def)
  qed
qed

theorem is_on_hold_window_witness:
  "t_last_init ''up'' = Some (- 1000000000)
   \<and> \<bar>7 - (- 1000000000)\<bar> < pow2 30
   \<and> (3242591731706757 / 18014398509481984) + pow2 (30 - 54) < 7 - (- 1000000000)
   \<and> is_on t_last_init (3242591731706757 / 18014398509481984) ''up'' 7 = Inr False
   \<and> (record_key t_last_init ''w'' 7) ''w'' = Some 7
   \<and> \<bar>57 / 8 - 7\<bar> < pow2 (- 2)
   \<and> 57 / 8 - 7 \<le> (3242591731706757 / 18014398509481984) - pow2 (- 2 - 54)
   \<and> is_on (record_key t_last_init ''w'' 7) (3242591731706757 / 18014398509481984) ''w'' (57 / 8) = Inr True
   \<and> is_on (record_key t_last_init ''w'' 7) (3242591731706757 / 18014398509481984) ''w''
        (round64 (round64 (7 + (3242591731706757 / 18014398509481984)) - round64 (1 / 1000))) = Inr True
   \<and> is_on (record_key t_last_init ''w'' 7) (3242591731706757 / 18014398509481984) ''w''
        (round64 (round64 (7 + (3242591731706757 / 18014398509481984)) + round64 (1 / 1000))) = Inr False"
  using is_on_hold_window [of t_last_init "''up''" "- 1000000000" 7 30
      "(3242591731706757 / 18014398509481984)" 7]
    is_on_hold_window [of "record_key t_last_init ''w'' 7" "''w''" 7 "57 / 8" "- 2"
      "(3242591731706757 / 18014398509481984)" 7]
  by (simp add: t_last_init_simps record_key_def is_on_def float_eval)

text \<open>
  C7. After the reset every input has to read as released. The code does not ensure it:
  the reset writes the finite sentinel -1e9 and \<open>parse_args\<close> puts no upper bound on
  \<open>--hold-ms\<close>. With \<open>--hold-ms 2000000000000\<close> the hold window is 2e9 s; after a key
  event for w at 4 and a reset, at time 5 the input w (like the seven others) is still
  held, and the tick sends full throttle, 03 66 80 80 ff 80 00 7f 99.
\<close>

theorem reset_all_keeps_held:
  "validate_args (default_args \<lparr> hold_ms := 2000000000000 \<rparr>)
     = Inr (default_args \<lparr> hold_ms := 2000000000000 \<rparr>)
   \<and> hold_s_of (default_args \<lparr> hold_ms := 2000000000000 \<rparr>) = Inr 2000000000
   \<and> is_on (reset_all (record_key t_last_init ''w'' 4)) 2000000000 ''w'' 5 = Inr True
   \<and> analog_packet (default_args \<lparr> hold_ms := 2000000000000 \<rparr>) 2000000000
        (reset_all (record_key t_last_init ''w'' 4)) 5
      = Inr [3, 102, 128, 128, 255, 128, 0, 127, 153]"
  by (simp add: is_on_def reset_all_def record_key_def hold_s_of_def default_args_def
      validate_args_def u8_def bind_e_def t_last_init_simps float_eval analog_packet_def
      axis_to_extreme_def clamp_u8_def build_analog_with_flags_def)

section \<open>Properties of the control loop\<close>

lemmas eval_simps = run_def send_takeoff_burst_def burst_loop.simps drain.simps steady.simps
  tick_def analog_step_def keepalive_step_def sleep_step_def monotonic_def read_key_def
  sendto_def sleep_def py_truediv_def

lemma build_Inr_frame:
  assumes "build_analog_with_flags c1 c2 thr c4 flags = Inr pkt"
  shows "pkt = [3, 102, c1, c2, thr, c4, flags, c1 XOR c2 XOR thr XOR c4 XOR flags, 153]"
proof -
  have r: "0 \<le> c1" "c1 \<le> 255" "0 \<le> c2" "c2 \<le> 255" "0 \<le> thr" "thr \<le> 255"
    "0 \<le> c4" "c4 \<le> 255" "0 \<le> flags" "flags \<le> 255"
    using assms
    by (auto simp: build_analog_with_flags_def u8_def bind_e_def split: if_splits)
  show ?thesis
    using assms build_in_range [OF r] checksum_in_range [OF r] by simp
qed

text \<open>
  C9. Every frame sent during a takeoff burst is 03 66 c1\_center c2\_center thr\_base
  c4\_center 01 chk 99: the flags byte is 0x01 and the four analog fields are the configured
  centers and base throttle. The burst neither reads the key table nor polls keys, so this
  holds whatever keys are held.
\<close>

theorem takeoff_burst_frames:
  assumes "send_takeoff_burst args duration_s w = (r, w')"
  shows "keys w' = keys w
       \<and> (\<exists>evs. trace w' = trace w @ evs
            \<and> (\<forall>pkt. Sent pkt \<in> set evs \<longrightarrow>
                  pkt = [3, 102, c1_center args, c2_center args, thr_base args, c4_center args, 1,
                         c1_center args XOR c2_center args XOR thr_base args XOR c4_center args XOR 1,
                         153]))"
proof -
  from send_takeoff_burst_post [OF assms]
  obtain evs where k: "keys w' = keys w" and t: "trace w' = trace w @ evs"
    and b: "list_all (burst_event args) evs"
    by (auto simp: burst_post_def)
  have "pkt = [3, 102, c1_center args, c2_center args, thr_base args, c4_center args, 1,
               c1_center args XOR c2_center args XOR thr_base args XOR c4_center args XOR 1, 153]"
    if "Sent pkt \<in> set evs" for pkt
  proof -
    from b that have "burst_event args (Sent pkt)" unfolding list_all_iff by blast
    then show ?thesis by (simp add: build_Inr_frame)
  qed
  with k t show ?thesis by blast
qed

theorem takeoff_burst_frames_witness:
  "send_takeoff_burst default_args 1
     \<lparr> platform = ''win32'', clock = [0, 0, 1 / 100, 1 / 50, 3 / 50, 1],
        keys = [Some ''w'', Some ''up''], trace = [Polled (Some ''w'')] \<rparr>
   = (Continue (),
     \<lparr> platform = ''win32'', clock = [], keys = [Some ''w'', Some ''up''],
        trace = [Polled (Some ''w''), Sent [3, 102, 128, 128, 0, 128, 1, 129, 153],
                 Slept (1 / 100), Sent [3, 102, 128, 128, 0, 128, 1, 129, 153]] \<rparr>)"
  using takeoff_burst_frames [of default_args 1
     "\<lparr> platform = ''win32'', clock = [0, 0, 1 / 100, 1 / 50, 3 / 50, 1],
        keys = [Some ''w'', Some ''up''], trace = [Polled (Some ''w'')] \<rparr>"]
  by (simp add: eval_simps default_args_def build_analog_with_flags_def u8_def bind_e_def)

lemma quit_last_append:
  assumes "quit_event \<notin> set evs0" "quit_last r evs"
  shows "quit_last r (evs0 @ evs)"
proof (cases r)
  case (Returned x)
  with assms(2) obtain pre where "x = 0" "evs = pre @ [quit_event]" "quit_event \<notin> set pre"
    by (auto simp: quit_last_def)
  then have "evs0 @ evs = (evs0 @ pre) @ [quit_event]" "quit_event \<notin> set (evs0 @ pre)"
    using assms(1) by simp_all
  then show ?thesis using Returned \<open>x = 0\<close> unfolding quit_last_def by (simp del: append_assoc)
qed (use assms in \<open>auto simp: quit_last_def\<close>)

lemma quit_post_step:
  assumes "quit_post w1 r w'" "trace w1 = trace w @ evs0" "quit_event \<notin> set evs0"
  shows "quit_post w r w'"
proof -
  from assms(1) obtain evs where "trace w' = trace w1 @ evs" "quit_last r evs"
    by (auto simp: quit_post_def)
  then have "trace w' = trace w @ (evs0 @ evs)" "quit_last r (evs0 @ evs)"
    using assms(2,3) by (simp_all add: quit_last_append)
  then show ?thesis unfolding quit_post_def by blast
qed

lemma quit_post_stop:
  assumes "trace w' = trace w @ evs0" "quit_event \<notin> set evs0" "\<forall>x. r \<noteq> Returned x"
  shows "quit_post w r w'"
proof -
  have "quit_last r evs0" using assms(2,3) by (cases r) (simp_all add: quit_last_def)
  then show ?thesis using assms(1) unfolding quit_post_def by blast
qed

lemma quit_post_quit:
  assumes "trace w' = trace w @ [quit_event]"
  shows "quit_post w (Returned 0) w'"
proof -
  have "quit_last (Returned 0) [quit_event]"
    unfolding quit_last_def by simp
  then show ?thesis using assms unfolding quit_post_def by blast
qed

lemma output_events_no_quit: "list_all output_event evs \<Longrightarrow> quit_event \<notin> set evs"
  by (auto simp: list_all_iff quit_event_def)

lemma burst_events_no_quit: "list_all (burst_event args) evs \<Longrightarrow> quit_event \<notin> set evs"
  by (auto simp: list_all_iff quit_event_def)

lemma send_takeoff_burst_trace:
  assumes "send_takeoff_burst args d w = (r, w')"
  obtains evs where "trace w' = trace w @ evs" "quit_event \<notin> set evs" "\<forall>x. r \<noteq> Returned x"
  using send_takeoff_burst_post [OF assms] burst_events_no_quit
  by (auto simp: burst_post_def)

lemma tick_trace:
  assumes "tick args hs ap kp now kt na nk w = (r, w')"
  obtains evs where "trace w' = trace w @ evs" "quit_event \<notin> set evs"
  using tick_post_tick [OF assms] output_events_no_quit
  by (auto simp: tick_post_def)

lemma drain_quit: "drain args now kt w = (r, w') \<Longrightarrow> quit_post w r w'"
proof (induction args now kt w arbitrary: r w' rule: drain.induct)
  case (1 args now t_last w)
  note eq = "1.prems"
  show ?case
  proof (cases "read_key w")
    case None
    with eq have rw: "r = Exhausted" "w' = w" by (simp_all add: drain.simps)
    have "quit_post w (Exhausted :: key_times outcome) w"
      by (rule quit_post_stop [where ?evs0.0 = "[]"]) simp_all
    then show ?thesis using rw by simp
  next
    case (Some a)
    obtain k w1 where rk: "read_key w = Some (k, w1)" using Some by (cases a) simp
    note w1 = read_key_Some [OF rk]
    show ?thesis
    proof (cases k)
      case None
      with eq rk have rw: "r = Continue t_last" "w' = w1" by (simp_all add: drain.simps)
      have "quit_post w (Continue t_last) w1"
        by (rule quit_post_stop [OF w1(3)]) (simp_all add: None quit_event_def)
      then show ?thesis using rw by simp
    next
      case k: (Some tok)
      consider (quit) "tok = ''quit''" | (e) "tok \<noteq> ''quit''" "tok = ''e''"
        | (r) "tok \<noteq> ''quit''" "tok \<noteq> ''e''" "tok = ''r''"
        | (key) "tok \<noteq> ''quit''" "tok \<noteq> ''e''" "tok \<noteq> ''r''" by blast
      then show ?thesis
      proof cases
        case quit
        with eq rk k have rw: "r = Returned 0" "w' = w1" by (simp_all add: drain.simps)
        have "quit_post w (Returned 0 :: key_times outcome) w1"
          by (rule quit_post_quit) (simp add: w1(3) k quit quit_event_def)
        then show ?thesis using rw by simp
      next
        case e
        have nq: "quit_event \<notin> set [Polled k]" using k e by (simp add: quit_event_def)
        obtain rb w2 where b: "send_takeoff_burst args 1 w1 = (rb, w2)"
          by (cases "send_takeoff_burst args 1 w1")
        from send_takeoff_burst_trace [OF b]
        obtain evs where t2: "trace w2 = trace w1 @ evs" "quit_event \<notin> set evs"
          "\<forall>x. rb \<noteq> Returned x" by blast
        have t2': "trace w2 = trace w @ ([Polled k] @ evs)" "quit_event \<notin> set ([Polled k] @ evs)"
          using t2 w1(3) nq by simp_all
        show ?thesis
        proof (cases rb)
          case (Continue u)
          with eq rk k e b have "drain args now t_last w2 = (r, w')"
            by (simp add: drain.simps)
          from "1.IH"(1) [OF rk refl k e(1) e(2) b [symmetric] Continue this]
          show ?thesis using t2' by (rule quit_post_step)
        next
          case (Returned x)
          with t2(3) show ?thesis by simp
        next
          case (Raised x)
          with eq rk k e b have rw: "r = Raised x" "w' = w2" by (simp_all add: drain.simps)
          have "quit_post w (Raised x :: key_times outcome) w2"
            by (rule quit_post_stop [OF t2']) simp
          then show ?thesis using rw by simp
        next
          case Exhausted
          with eq rk k e b have rw: "r = Exhausted" "w' = w2" by (simp_all add: drain.simps)
          have "quit_post w (Exhausted :: key_times outcome) w2"
            by (rule quit_post_stop [OF t2']) simp
          then show ?thesis using rw by simp
        qed
      next
        case r
        have nq: "quit_event \<notin> set [Polled k]" using k r by (simp add: quit_event_def)
        from eq rk k r have "drain args now (reset_all t_last) w1 = (r, w')"
          by (simp add: drain.simps)
        from "1.IH"(2) [OF rk refl k r(1) r(2) r(3) this] show ?thesis
          using w1(3) nq by (rule quit_post_step)
      next
        case key
        have nq: "quit_event \<notin> set [Polled k]" using k key by (simp add: quit_event_def)
        from eq rk k key have "drain args now (record_key t_last tok now) w1 = (r, w')"
          by (simp add: drain.simps)
        from "1.IH"(3) [OF rk refl k key(1) key(2) key(3) this] show ?thesis
          using w1(3) nq by (rule quit_post_step)
      qed
    qed
  qed
qed

lemma steady_quit: "steady args hs ap kp kt na nk w = (r, w') \<Longrightarrow> quit_post w r w'"
proof (induction args hs ap kp kt na nk w arbitrary: r w' rule: steady.induct)
  case (1 args hs ap kp t_last na nk w)
  note eq = "1.prems"
  show ?case
  proof (cases "monotonic w")
    case None
    with eq have rw: "r = Exhausted" "w' = w" by (simp_all add: steady.simps)
    have "quit_post w (Exhausted :: unit outcome) w"
      by (rule quit_post_stop [where ?evs0.0 = "[]"]) simp_all
    then show ?thesis using rw by simp
  next
    case (Some a)
    obtain now w1 where m: "monotonic w = Some (now, w1)" using Some by (cases a) simp
    note w1 = monotonic_Some [OF m]
    obtain rd w2 where d: "drain args now t_last w1 = (rd, w2)"
      by (cases "drain args now t_last w1")
    have qd: "quit_post w rd w2"
      by (rule quit_post_step [OF drain_quit [OF d], where ?evs0.0 = "[]"]) (simp_all add: w1)
    show ?thesis
    proof (cases rd)
      case (Continue t_last')
      from qd Continue obtain evs where t2: "trace w2 = trace w @ evs" "quit_event \<notin> set evs"
        by (auto simp: quit_post_def quit_last_def)
      obtain rt w3 where t: "tick args hs ap kp now t_last' na nk w2 = (rt, w3)"
        by (cases "tick args hs ap kp now t_last' na nk w2")
      from tick_trace [OF t] obtain evs3 where t3: "trace w3 = trace w2 @ evs3"
        "quit_event \<notin> set evs3" by blast
      have t3': "trace w3 = trace w @ (evs @ evs3)" "quit_event \<notin> set (evs @ evs3)"
        using t2 t3 by simp_all
      show ?thesis
      proof (cases rt)
        case (Inl e)
        with eq m d Continue t have rw: "r = Raised e" "w' = w3" by (simp_all add: steady.simps)
        have "quit_post w (Raised e :: unit outcome) w3"
          by (rule quit_post_stop [OF t3']) simp
        then show ?thesis using rw by simp
      next
        case (Inr b)
        obtain na' nk' where b: "b = (na', nk')" by (cases b)
        from eq m d Continue t Inr b
        have "steady args hs ap kp t_last' na' nk' w3 = (r, w')"
          by (simp add: steady.simps)
        from "1.IH" [OF m refl d [symmetric] Continue t [symmetric] Inr b [symmetric] this]
        show ?thesis using t3' by (rule quit_post_step)
      qed
    next
      case (Returned x)
      with eq m d have "r = Returned x" "w' = w2" by (simp_all add: steady.simps)
      then show ?thesis using qd Returned by (simp add: quit_post_def quit_last_def)
    next
      case (Raised x)
      with eq m d have "r = Raised x" "w' = w2" by (simp_all add: steady.simps)
      then show ?thesis using qd Raised by (simp add: quit_post_def quit_last_def)
    next
      case Exhausted
      with eq m d have "r = Exhausted" "w' = w2" by (simp_all add: steady.simps)
      then show ?thesis using qd Exhausted by (simp add: quit_post_def quit_last_def)
    qed
  qed
qed

lemma run_quit:
  assumes "run args w = (r, w')"
  shows "quit_post w r w'"
proof (cases "platform w \<noteq> ''win32''")
  case True
  with assms obtain e where rw: "r = Raised e" "w' = w" by (auto simp: run_def)
  have "quit_post w (Raised e :: unit outcome) w"
    by (rule quit_post_stop [where ?evs0.0 = "[]"]) simp_all
  then show ?thesis using rw by simp
next
  case win: False
  show ?thesis
  proof (cases "hold_s_of args")
    case (Inl e)
    with assms win have rw: "r = Raised e" "w' = w" by (simp_all add: run_def)
    have "quit_post w (Raised e :: unit outcome) w"
      by (rule quit_post_stop [where ?evs0.0 = "[]"]) simp_all
    then show ?thesis using rw by simp
  next
  case hs: (Inr hold_s)
  obtain rb w1 where b: "send_takeoff_burst args 1 w = (rb, w1)"
    by (cases "send_takeoff_burst args 1 w")
  from send_takeoff_burst_trace [OF b]
  obtain evs where t1: "trace w1 = trace w @ evs" "quit_event \<notin> set evs"
    "\<forall>x. rb \<noteq> Returned x" by blast
  have stop1: "quit_post w r' w1" if "\<forall>x. r' \<noteq> Returned x" for r' :: "unit outcome"
    using t1(1,2) that by (rule quit_post_stop)
  show ?thesis
  proof (cases rb)
    case (Continue u)
    show ?thesis
    proof (cases "py_truediv 1 (rate_hz args)")
      case (Inl e)
      with assms win hs b Continue have rw: "r = Raised e" "w' = w1" by (simp_all add: run_def)
      show ?thesis using stop1 [of "Raised e"] rw by simp
    next
      case ap: (Inr analog_period)
      show ?thesis
      proof (cases "if send_keepalive args
                    then (case py_truediv 1 (keepalive_hz args) of
                            Inl e \<Rightarrow> Inl e | Inr p \<Rightarrow> Inr (Some p))
                    else Inr None")
        case (Inl e)
        with assms win hs b Continue ap have rw: "r = Raised e" "w' = w1"
          by (simp_all add: run_def)
        show ?thesis using stop1 [of "Raised e"] rw by simp
      next
        case kp: (Inr ka_period)
        show ?thesis
        proof (cases "monotonic w1")
          case None
          with assms win hs b Continue ap kp have rw: "r = Exhausted" "w' = w1"
            by (simp_all add: run_def)
          show ?thesis using stop1 [of Exhausted] rw by simp
        next
          case (Some a)
          obtain t0 w2 where m: "monotonic w1 = Some (t0, w2)" using Some by (cases a) simp
          have t2: "trace w2 = trace w @ evs" using monotonic_Some(3) [OF m] t1(1) by simp
          from assms win hs b Continue ap kp m
          have "steady args hold_s analog_period ka_period t_last_init t0
                  (if ka_period \<noteq> None then Some t0 else None) w2 = (r, w')"
            by (simp add: run_def)
          from steady_quit [OF this] show ?thesis using t2 t1(2) by (rule quit_post_step)
        qed
      qed
    qed
  next
    case (Returned x)
    with t1(3) show ?thesis by simp
  next
    case (Raised e)
    with assms win hs b have rw: "r = Raised e" "w' = w1" by (simp_all add: run_def)
    show ?thesis using stop1 [of "Raised e"] rw by simp
  next
    case Exhausted
    with assms win hs b have rw: "r = Exhausted" "w' = w1" by (simp_all add: run_def)
    show ?thesis using stop1 [of Exhausted] rw by simp
  qed
  qed
qed

lemma quit_last_decomp:
  assumes "quit_last r evs" "evs = pre @ quit_event # post"
  shows "post = [] \<and> r = Returned 0"
proof (cases r)
  case (Returned x)
  with assms(1) obtain pre0 where x: "x = 0" and e: "evs = pre0 @ [quit_event]"
    and n: "quit_event \<notin> set pre0"
    by (auto simp: quit_last_def)
  have "post = []"
  proof (cases post rule: rev_cases)
    case Nil
    then show ?thesis .
  next
    case (snoc post' y)
    with assms(2) e have "(pre @ quit_event # post') @ [y] = pre0 @ [quit_event]" by simp
    then have "pre0 = pre @ quit_event # post'" by (simp only: append1_eq_conv)
    with n show ?thesis by simp
  qed
  with Returned x show ?thesis by simp
qed (use assms in \<open>auto simp: quit_last_def\<close>)

text \<open>
  C8. When the drain step reads a \<open>quit\<close> token, at whatever state of the drain, it
  returns 0 at once with nothing else done; and in every run, an observed \<open>quit\<close> is the
  last event of the trace and the run returned 0: no frame, analog or keepalive, is sent
  after it.
\<close>

theorem quit_returns_immediately:
  "(read_key w = Some (Some ''quit'', w1) \<longrightarrow>
      drain args now t_last w = (Returned 0, w1)
      \<and> trace w1 = trace w @ [Polled (Some ''quit'')])
   \<and> (run args w0 = (r, w') \<longrightarrow>
        (\<exists>evs. trace w' = trace w0 @ evs
           \<and> (\<forall>pre post. evs = pre @ Polled (Some ''quit'') # post \<longrightarrow>
                 post = [] \<and> r = Returned 0)))"
proof (intro conjI impI)
  assume rk: "read_key w = Some (Some ''quit'', w1)"
  then show "drain args now t_last w = (Returned 0, w1)" by (simp add: drain.simps)
  show "trace w1 = trace w @ [Polled (Some ''quit'')]" using read_key_Some(3) [OF rk] .
next
  assume "run args w0 = (r, w')"
  from run_quit [OF this] obtain evs where e: "trace w' = trace w0 @ evs" "quit_last r evs"
    by (auto simp: quit_post_def)
  have "\<forall>pre post. evs = pre @ Polled (Some ''quit'') # post \<longrightarrow> post = [] \<and> r = Returned 0"
    using quit_last_decomp [OF e(2)] by (simp add: quit_event_def)
  with e(1) show "\<exists>evs. trace w' = trace w0 @ evs
           \<and> (\<forall>pre post. evs = pre @ Polled (Some ''quit'') # post \<longrightarrow>
                 post = [] \<and> r = Returned 0)" by blast
qed

theorem quit_returns_immediately_witness:
  "read_key \<lparr> platform = ''win32'', clock = [], keys = [Some ''quit'', Some ''a''], trace = [] \<rparr>
     = Some (Some ''quit'',
         \<lparr> platform = ''win32'', clock = [], keys = [Some ''a''],
            trace = [Polled (Some ''quit'')] \<rparr>)
   \<and> drain default_args 4 t_last_init
       \<lparr> platform = ''win32'', clock = [], keys = [Some ''quit'', Some ''a''], trace = [] \<rparr>
     = (Returned 0,
         \<lparr> platform = ''win32'', clock = [], keys = [Some ''a''],
            trace = [Polled (Some ''quit'')] \<rparr>)
   \<and> run default_args
       \<lparr> platform = ''win32'', clock = [0, 0, 1 / 2, 2, 3, 4, 5],
          keys = [Some ''w'', Some ''quit'', Some ''a''], trace = [] \<rparr>
     = (Returned 0,
         \<lparr> platform = ''win32'', clock = [5], keys = [Some ''a''],
            trace = [Sent [3, 102, 128, 128, 0, 128, 1, 129, 153], Polled (Some ''w''),
                     Polled (Some ''quit'')] \<rparr>)"
proof -
  have r: "run default_args
       \<lparr> platform = ''win32'', clock = [0, 0, 1 / 2, 2, 3, 4, 5],
          keys = [Some ''w'', Some ''quit'', Some ''a''], trace = [] \<rparr>
     = (Returned 0,
         \<lparr> platform = ''win32'', clock = [5], keys = [Some ''a''],
            trace = [Sent [3, 102, 128, 128, 0, 128, 1, 129, 153], Polled (Some ''w''),
                     Polled (Some ''quit'')] \<rparr>)"
    unfolding run_def hold_s_of_default
    by (simp add: eval_simps default_args_def build_analog_with_flags_def u8_def bind_e_def)
  show ?thesis
    using quit_returns_immediately [of
        "\<lparr> platform = ''win32'', clock = [], keys = [Some ''quit'', Some ''a''], trace = [] \<rparr>"
        "\<lparr> platform = ''win32'', clock = [], keys = [Some ''a''],
           trace = [Polled (Some ''quit'')] \<rparr>"
        default_args 4 t_last_init
        "\<lparr> platform = ''win32'', clock = [0, 0, 1 / 2, 2, 3, 4, 5],
           keys = [Some ''w'', Some ''quit'', Some ''a''], trace = [] \<rparr>"
        "Returned 0"
        "\<lparr> platform = ''win32'', clock = [5], keys = [Some ''a''],
           trace = [Sent [3, 102, 128, 128, 0, 128, 1, 129, 153], Polled (Some ''w''),
                    Polled (Some ''quit'')] \<rparr>"]
      r
    by (simp add: drain.simps read_key_def)
qed

end
